theory Spec2Isabelle
  imports Complex_Main
begin

section \<open>BaseClient: retry with backoff and circuit breaker\<close>

text \<open>
  The embedding follows \<^verbatim>\<open>BaseClient.ts\<close>. Logging has no effect on any value and is left
  out. Time stamps (\<^verbatim>\<open>Date.now()\<close>) are integers of milliseconds; counters, the number of
  attempts, the delay and the multiplier are naturals, on which \<^verbatim>\<open>Math.pow\<close> and the product
  are exact. The breaker threshold 5 and the reset timeout of 30000 ms are the literals of the
  code: the constructor ignores its \<^verbatim>\<open>_circuitBreakerConfig\<close> argument.
\<close>

datatype breaker_state = CLOSED | OPEN | HALF_OPEN

record circuit_breaker =
  failures :: nat
  lastFailureTime :: int
  state :: breaker_state

record retry_config =
  maxAttempts :: nat
  delayMs :: nat
  backoffMultiplier :: nat

record base_client =
  serviceName :: string
  retryConfig :: retry_config
  circuitBreaker :: circuit_breaker

text \<open>The retry section of \<^verbatim>\<open>API_CONSTANTS\<close>.\<close>

definition MAX_RETRY_ATTEMPTS :: nat where "MAX_RETRY_ATTEMPTS = 3"
definition RETRY_DELAY_MS :: nat where "RETRY_DELAY_MS = 1000"
definition RETRY_BACKOFF_MULTIPLIER :: nat where "RETRY_BACKOFF_MULTIPLIER = 2"

text \<open>
  The constructor: each field of the optional \<^verbatim>\<open>retryConfig\<close> argument falls back to its
  constant (\<^verbatim>\<open>??\<close>), and the breaker starts CLOSED with no failure recorded.
\<close>

definition new_client ::
  "string \<Rightarrow> nat option \<Rightarrow> nat option \<Rightarrow> nat option \<Rightarrow> base_client" where
  "new_client name optMaxAttempts optDelayMs optBackoff =
     \<lparr> serviceName = name,
       retryConfig =
         \<lparr> maxAttempts = (case optMaxAttempts of Some n \<Rightarrow> n | None \<Rightarrow> MAX_RETRY_ATTEMPTS),
           delayMs = (case optDelayMs of Some d \<Rightarrow> d | None \<Rightarrow> RETRY_DELAY_MS),
           backoffMultiplier =
             (case optBackoff of Some b \<Rightarrow> b | None \<Rightarrow> RETRY_BACKOFF_MULTIPLIER) \<rparr>,
       circuitBreaker = \<lparr> failures = 0, lastFailureTime = 0, state = CLOSED \<rparr> \<rparr>"

text \<open>
  What a request function can reject with: an axios error (with the response status and the
  \<^verbatim>\<open>message\<close> and \<^verbatim>\<open>code\<close> fields of the response body, each possibly absent, and the
  request url), or any other error.
\<close>

datatype failure =
    AxiosError (err_message: string) (resp_status: "nat option")
      (data_message: "string option") (data_code: "string option") (config_url: "string option")
  | OtherError (err_message: string)

datatype error_details =
    NoDetails
  | ServiceDetails string string "string option"
  | MissionDetails string nat

text \<open>
  What the code throws: a \<^verbatim>\<open>RoboticsError\<close> (message, code, status code, details), or the
  \<^verbatim>\<open>TypeError\<close> of reading \<^verbatim>\<open>.message\<close> of \<^verbatim>\<open>undefined\<close>.
\<close>

datatype exn =
    RoboticsError (message: string) (code: string) (statusCode: nat) (details: error_details)
  | TypeError

text \<open>JavaScript's \<^verbatim>\<open>a || b\<close> on an optional number and on an optional string.\<close>

definition or_nat :: "nat option \<Rightarrow> nat \<Rightarrow> nat" where
  "or_nat a b = (case a of Some n \<Rightarrow> (if n = 0 then b else n) | None \<Rightarrow> b)"

definition or_string :: "string option \<Rightarrow> string \<Rightarrow> string" where
  "or_string a b = (case a of Some s \<Rightarrow> (if s = [] then b else s) | None \<Rightarrow> b)"

text \<open>
  The test of line 141:
  \<^verbatim>\<open>axios.isAxiosError(error) && error.response?.status && error.response.status < 500\<close>.
\<close>

fun is_client_error :: "failure \<Rightarrow> bool" where
  "is_client_error (AxiosError m (Some s) dm dc u) = (s \<noteq> 0 \<and> s < 500)"
| "is_client_error (AxiosError m None dm dc u) = False"
| "is_client_error (OtherError m) = False"

fun transformError :: "base_client \<Rightarrow> failure \<Rightarrow> exn" where
  "transformError bc (AxiosError m st dm dc u) =
     RoboticsError (serviceName bc @ '': '' @ or_string dm m) (or_string dc ''SERVICE_ERROR'')
       (or_nat st 500) (ServiceDetails (serviceName bc) m u)"
| "transformError bc (OtherError m) =
     RoboticsError (serviceName bc @ '': '' @ m) ''UNKNOWN_ERROR'' 500
       (ServiceDetails (serviceName bc) m None)"

definition incrementCircuitBreakerFailure :: "int \<Rightarrow> base_client \<Rightarrow> base_client" where
  "incrementCircuitBreakerFailure now bc =
     (let cb = circuitBreaker bc;
          cb1 = cb\<lparr> failures := failures cb + 1, lastFailureTime := now \<rparr>;
          cb2 = (if failures cb1 \<ge> 5 then cb1\<lparr> state := OPEN \<rparr> else cb1)
      in bc\<lparr> circuitBreaker := cb2 \<rparr>)"

definition resetCircuitBreaker :: "base_client \<Rightarrow> base_client" where
  "resetCircuitBreaker bc =
     bc\<lparr> circuitBreaker := (circuitBreaker bc)\<lparr> failures := 0, state := CLOSED \<rparr> \<rparr>"

text \<open>
  The world outside the client: the clock, the number of transport attempts issued so far,
  the arguments of \<^verbatim>\<open>sleep\<close> in order, and the breaker state seen after each operation that
  can assign it (the check at the start of a call, the reset, the increment).
\<close>

record net =
  clock :: int
  sent :: nat
  slept :: "nat list"
  observed :: "breaker_state list"

definition sleep :: "nat \<Rightarrow> net \<Rightarrow> net" where
  "sleep ms w = w\<lparr> clock := clock w + int ms, slept := slept w @ [ms] \<rparr>"

definition observe :: "base_client \<Rightarrow> net \<Rightarrow> net" where
  "observe bc w = w\<lparr> observed := observed w @ [state (circuitBreaker bc)] \<rparr>"

text \<open>
  The transport is an input: its \<open>n\<close>-th attempt (counting all attempts on this client)
  takes some time and is fulfilled with a value or rejected with a failure. The response
  interceptor runs inside the request function: a fulfilled response resets the breaker, a
  rejected one is only logged.
\<close>

type_synonym 'a transport = "nat \<Rightarrow> nat \<times> (failure + 'a)"

text \<open>The \<^verbatim>\<open>for\<close> loop of \<^verbatim>\<open>executeWithRetry\<close>, from a given attempt number.\<close>

function attempt_loop ::
  "'a transport \<Rightarrow> nat \<Rightarrow> nat \<Rightarrow> failure option \<Rightarrow> base_client \<Rightarrow> net
     \<Rightarrow> (exn + 'a) \<times> base_client \<times> net" where
  "attempt_loop tr maxA attempt lastError bc w =
     (if attempt \<le> maxA then
        (let w1 = w\<lparr> clock := clock w + int (fst (tr (sent w))), sent := Suc (sent w) \<rparr> in
         case snd (tr (sent w)) of
           Inr result \<Rightarrow>
             (let bc1 = resetCircuitBreaker bc in (Inr result, bc1, observe bc1 w1))
         | Inl error \<Rightarrow>
             if is_client_error error then (Inl (transformError bc error), bc, w1)
             else
               (let bc1 = incrementCircuitBreakerFailure (clock w1) bc;
                    w2 = observe bc1 w1;
                    w3 = (if attempt < maxA
                          then sleep (delayMs (retryConfig bc)
                                 * backoffMultiplier (retryConfig bc) ^ (attempt - 1)) w2
                          else w2)
                in attempt_loop tr maxA (Suc attempt) (Some error) bc1 w3))
      else
        (Inl (case lastError of Some e \<Rightarrow> transformError bc e | None \<Rightarrow> TypeError), bc, w))"
  by pat_completeness auto
termination
  by (relation "measure (\<lambda>(tr, maxA, attempt, lastError, bc, w). Suc maxA - attempt)") auto

text \<open>The number of attempts a call may make: \<^verbatim>\<open>options?.retries ?? this.retryConfig.maxAttempts\<close>.\<close>

definition attempts_of :: "nat option \<Rightarrow> base_client \<Rightarrow> nat" where
  "attempts_of retries bc = (case retries of Some r \<Rightarrow> r | None \<Rightarrow> maxAttempts (retryConfig bc))"

definition breaker_open_error :: "base_client \<Rightarrow> exn" where
  "breaker_open_error bc =
     RoboticsError (''Circuit breaker OPEN for '' @ serviceName bc
                      @ ''. Service temporarily unavailable.'')
       ''CIRCUIT_BREAKER_OPEN'' 503 NoDetails"

definition executeWithRetry ::
  "'a transport \<Rightarrow> nat option \<Rightarrow> base_client \<Rightarrow> net \<Rightarrow> (exn + 'a) \<times> base_client \<times> net" where
  "executeWithRetry tr retries bc w =
     (let maxA = attempts_of retries bc in
      if state (circuitBreaker bc) = OPEN then
        if clock w - lastFailureTime (circuitBreaker bc) < 30000
        then (Inl (breaker_open_error bc), bc, w)
        else
          (let bc1 = bc\<lparr> circuitBreaker := (circuitBreaker bc)\<lparr> state := HALF_OPEN \<rparr> \<rparr>
           in attempt_loop tr maxA 1 None bc1 (observe bc1 w))
      else attempt_loop tr maxA 1 None bc w)"

text \<open>\<^verbatim>\<open>get\<close>, \<^verbatim>\<open>post\<close>, \<^verbatim>\<open>put\<close> and \<^verbatim>\<open>delete\<close> all call \<^verbatim>\<open>executeWithRetry\<close> without \<^verbatim>\<open>retries\<close>.\<close>

definition post :: "'a transport \<Rightarrow> base_client \<Rightarrow> net \<Rightarrow> (exn + 'a) \<times> base_client \<times> net" where
  "post tr bc w = executeWithRetry tr None bc w"

text \<open>
  A sequence of calls on one client instance: before each call some time passes, then the
  call runs (with its optional \<^verbatim>\<open>retries\<close>); its result is dropped, the client and the
  world are kept.
\<close>

fun run_calls ::
  "'a transport \<Rightarrow> (nat \<times> nat option) list \<Rightarrow> base_client \<Rightarrow> net \<Rightarrow> base_client \<times> net" where
  "run_calls tr [] bc w = (bc, w)"
| "run_calls tr ((gap, retries) # cs) bc w =
     (case executeWithRetry tr retries bc (w\<lparr> clock := clock w + int gap \<rparr>) of
        (r, bc1, w1) \<Rightarrow> run_calls tr cs bc1 w1)"

definition net0 :: "int \<Rightarrow> net" where
  "net0 t = \<lparr> clock = t, sent = 0, slept = [], observed = [] \<rparr>"

text \<open>
  The changes of breaker state the data model of the specification lists:
  CLOSED to OPEN, OPEN to HALF_OPEN, HALF_OPEN to CLOSED or OPEN (or no change).
\<close>

definition spec_breaker_step :: "breaker_state \<Rightarrow> breaker_state \<Rightarrow> bool" where
  "spec_breaker_step a b =
     (a = b \<or> (a = CLOSED \<and> b = OPEN) \<or> (a = OPEN \<and> b = HALF_OPEN)
      \<or> (a = HALF_OPEN \<and> b = CLOSED) \<or> (a = HALF_OPEN \<and> b = OPEN))"

text \<open>The same, with the change from OPEN to CLOSED that a fulfilled response makes.\<close>

definition breaker_step :: "breaker_state \<Rightarrow> breaker_state \<Rightarrow> bool" where
  "breaker_step a b = (spec_breaker_step a b \<or> (a = OPEN \<and> b = CLOSED))"

text \<open>A failure that the retry loop retries: anything line 141 does not classify as a client error.\<close>

definition retryable_at :: "'a transport \<Rightarrow> nat \<Rightarrow> bool" where
  "retryable_at tr n = (case snd (tr n) of Inl e \<Rightarrow> \<not> is_client_error e | Inr v \<Rightarrow> False)"

text \<open>
  The breaker of a client is consistent when it is CLOSED or has counted at least the five
  failures of line 292: a state other than CLOSED is only ever entered from there.
\<close>

definition breaker_consistent :: "base_client \<Rightarrow> bool" where
  "breaker_consistent bc =
     (state (circuitBreaker bc) = CLOSED \<or> 5 \<le> failures (circuitBreaker bc))"

text \<open>Concrete clients and transports used to exercise the definitions.\<close>

definition graphRAG_client :: base_client where
  "graphRAG_client = new_client ''GraphRAG'' None None None"

definition tripped_client :: base_client where
  "tripped_client =
     graphRAG_client\<lparr> circuitBreaker := \<lparr> failures = 5, lastFailureTime = 0, state = OPEN \<rparr> \<rparr>"

definition always_timeout :: "unit transport" where
  "always_timeout n = (0, Inl (OtherError ''timeout of 30000ms exceeded''))"

definition five_timeouts_then_ok :: "unit transport" where
  "five_timeouts_then_ok n =
     (0, if n < 5 then Inl (OtherError ''timeout of 30000ms exceeded'') else Inr ())"

definition always_ok :: "unit transport" where
  "always_ok n = (0, Inr ())"

definition six_timeouts_then_not_found :: "unit transport" where
  "six_timeouts_then_not_found n =
     (0, if n < 6 then Inl (OtherError ''timeout of 30000ms exceeded'')
         else Inl (AxiosError ''Request failed with status code 404'' (Some 404) None None None))"

definition always_not_found :: "unit transport" where
  "always_not_found n =
     (0, Inl (AxiosError ''Request failed with status code 404'' (Some 404) None None None))"

text \<open>
  The client after six timeouts in two calls at time 0 (breaker OPEN), and the same client after
  a further call 30 s later that was answered 404 (breaker left HALF_OPEN).
\<close>

definition opened_client :: base_client where
  "opened_client =
     graphRAG_client\<lparr> circuitBreaker := \<lparr> failures = 6, lastFailureTime = 6000, state = OPEN \<rparr> \<rparr>"

definition probing_client :: base_client where
  "probing_client =
     graphRAG_client\<lparr> circuitBreaker := \<lparr> failures = 6, lastFailureTime = 6000, state = HALF_OPEN \<rparr> \<rparr>"

definition one_timeout_then_ok :: "unit transport" where
  "one_timeout_then_ok n =
     (0, if n < 1 then Inl (OtherError ''timeout of 30000ms exceeded'') else Inr ())"

section \<open>MissionController: the ReAct loop\<close>

text \<open>
  The embedding follows the class \<^verbatim>\<open>MissionController\<close> and the types it uses. Numbers that
  the code only compares (battery, wind, visibility, confidence) are reals. A field name that
  two interfaces share, or that is a constant of HOL, carries a prefix. Fields that the
  controller neither reads nor writes are left out of \<^verbatim>\<open>Mission\<close> and \<^verbatim>\<open>MissionObjective\<close>;
  \<^verbatim>\<open>obstacles\<close> and \<^verbatim>\<open>communication\<close> of \<^verbatim>\<open>WorldState\<close> and \<^verbatim>\<open>telemetry\<close> of \<^verbatim>\<open>MissionResult\<close>
  are always empty and never read. Logging is left out.
\<close>

datatype MissionType =
    DELIVERY | INSPECTION | SURVEILLANCE | MAPPING | SEARCH_AND_RESCUE | AGRICULTURE
  | ENVIRONMENTAL_MONITORING | INFRASTRUCTURE_MONITORING | CARGO_TRANSPORT | PATROL
  | DATA_COLLECTION | EMERGENCY_RESPONSE

datatype MissionStatus = PLANNING | READY | IN_PROGRESS | PAUSED | COMPLETED | FAILED | ABORTED

datatype MissionMode = MANUAL | SEMI_AUTONOMOUS | AUTONOMOUS

datatype ObjectClassification =
    UNKNOWN | PERSON | VEHICLE | BICYCLE | ANIMAL | BUILDING | TREE | SIGN | TRAFFIC_LIGHT
  | PACKAGE | EQUIPMENT | INFRASTRUCTURE

datatype Priority = LOW | MEDIUM | HIGH

datatype ObjectiveKind = PRIMARY | SECONDARY | OPTIONAL

record Position3D =
  latitude :: real
  longitude :: real
  altitude :: real
  timestamp :: int

record Velocity3D =
  vx :: real
  vy :: real
  vz :: real
  speed :: real
  heading :: real

record Detection =
  det_id :: "string option"
  category :: string
  label :: string
  det_confidence :: real

record TrackedObject =
  obj_id :: string
  obj_position :: Position3D
  classification :: ObjectClassification
  obj_confidence :: real
  priority :: Priority
  firstDetected :: int
  lastSeen :: int
  trackingHistory :: "Position3D list"
  meta_type :: string
  meta_description :: string

record Health =
  battery :: real
  temperature :: real
  errors :: "string list"

record Environment =
  windSpeed :: "real option"
  env_temperature :: "real option"
  humidity :: "real option"
  visibility :: "real option"

record WorldState =
  ws_timestamp :: int
  position :: Position3D
  velocity :: Velocity3D
  attitude :: "real list"
  trackedObjects :: "TrackedObject list"
  health :: Health
  environment :: Environment

record MissionObjective =
  objective_id :: string
  kind :: ObjectiveKind
  completed :: bool

record WeatherLimits =
  maxWindSpeed :: "real option"
  minVisibility :: "real option"

record MissionConstraints =
  maxAltitude :: "real option"
  batteryReserve :: real
  weatherLimits :: WeatherLimits
  safetyDistance :: real

record Mission =
  mission_id :: string
  mission_name :: string
  mission_type :: MissionType
  status :: MissionStatus
  mission_mode :: MissionMode
  objectives :: "MissionObjective list"
  constraints :: MissionConstraints

record MissionResult =
  missionId :: string
  result_status :: MissionStatus
  objectivesCompleted :: nat
  objectivesTotal :: nat
  duration :: real
  distanceTraveled :: real
  energyConsumed :: real
  lessons :: "string list"

text \<open>The action that \<^verbatim>\<open>planNextAction\<close> returns; its type is whatever string the reasoning
  service answered.\<close>

record Action =
  action_type :: string
  reasoning :: string
  action_confidence :: real

text \<open>
  The reason of an evaluation is a template string with numbers in it; the model keeps the
  template and the values that fill it. \<open>ReplanningRequired\<close> is the text that
  \<^verbatim>\<open>executeMission\<close> passes on when an evaluation has no reason.
\<close>

datatype reason =
    NoMissionOrWorldState
  | MultiplePeopleNearby nat real
  | WindExceedsLimits real
  | VisibilityBelowLimits real
  | LowBattery real
  | SystemErrors "string list"
  | ReplanningRequired

record Evaluation =
  needsReplanning :: bool
  shouldAbort :: bool
  eval_reason :: "reason option"

text \<open>What an action handler returns: \<^verbatim>\<open>success\<close>, \<^verbatim>\<open>message\<close>, and the handler's extra field.\<close>

datatype payload =
    NoPayload
  | InspectionData Position3D int nat Environment
  | CollectedData Position3D int Environment "string list"
  | ActionCode string
  | Location Position3D
  | PeopleDetected "(string \<times> Position3D \<times> real) list"
  | PauseDuration nat

record ActionResult =
  success :: bool
  result_message :: string
  extra :: payload

record Observation =
  actionSuccess :: bool
  newState :: WorldState
  obs_timestamp :: int

text \<open>
  The requests sent to the knowledge store. The content of an episode is a template string
  too; the model keeps which template and the values in it.
\<close>

datatype episode =
    MissionStarted string MissionType
  | ActionExecuted string string
  | WorldStateUpdated
  | MissionReplanning reason
  | AreaInspected Position3D int nat Environment
  | DataCollected Position3D int Environment "string list"
  | PackageDelivered Position3D
  | PeopleFound nat Position3D
  | SafetyPause nat

datatype request =
    StoreEpisode episode string real
  | StoreDocument string MissionResult
  | StorePattern MissionType nat real

text \<open>
  The collaborators are inputs. The \<open>n\<close>-th call of \<^verbatim>\<open>VideoAgentClient.processFrame\<close>, of
  \<^verbatim>\<open>MageAgentClient.makeStrategicDecision\<close> and of a \<^verbatim>\<open>GraphRAGClient\<close> store method takes
  some time and returns or raises what \<^verbatim>\<open>BaseClient.post\<close> returned or raised for it: none of
  these methods catches (the first two log and rethrow). \<open>random_id\<close> stands for
  \<^verbatim>\<open>Math.random()\<close> in the identifier of a detection that has none.
\<close>

record collaborators =
  processFrame_reply :: "nat \<Rightarrow> nat \<times> (exn + Detection list option)"
  decision_reply :: "nat \<Rightarrow> nat \<times> (exn + Action)"
  store_reply :: "nat \<Rightarrow> nat \<times> (exn + unit)"
  random_id :: "int \<Rightarrow> nat \<Rightarrow> string"

text \<open>
  The fields of the controller (\<^verbatim>\<open>mission\<close>, \<^verbatim>\<open>worldState\<close>, \<^verbatim>\<open>iteration\<close>, \<^verbatim>\<open>startTime\<close>)
  together with the world around it: the clock, how many calls each collaborator has
  received, the store requests issued in order, and the arguments of \<^verbatim>\<open>sleep\<close> in order.
  The \<^verbatim>\<open>mission\<close> parameter of \<^verbatim>\<open>executeMission\<close> and \<^verbatim>\<open>this.mission\<close> are one object, so an
  assignment to \<^verbatim>\<open>mission.status\<close> is an update of the field \<open>mission\<close>.
\<close>

record controller =
  mission :: "Mission option"
  worldState :: "WorldState option"
  iteration :: nat
  startTime :: int
  now :: int
  frames :: nat
  decisions :: nat
  stores :: nat
  issued :: "request list"
  pauses :: "nat list"

definition maxIterations :: nat where "maxIterations = 50"

definition controller_sleep :: "nat \<Rightarrow> controller \<Rightarrow> controller" where
  "controller_sleep ms s = s\<lparr> now := now s + int ms, pauses := pauses s @ [ms] \<rparr>"

text \<open>JavaScript's \<^verbatim>\<open>a || b\<close> on a number, and the truth value of an optional number.\<close>

definition or_real :: "real \<Rightarrow> real \<Rightarrow> real" where
  "or_real a b = (if a = 0 then b else a)"

definition truthy :: "real option \<Rightarrow> bool" where
  "truthy a = (case a of Some x \<Rightarrow> x \<noteq> 0 | None \<Rightarrow> False)"

text \<open>Decimal digits of a natural number, for the messages that print a count.\<close>

fun show_nat :: "nat \<Rightarrow> string" where
  "show_nat n =
     (if n < 10 then [char_of (48 + n)] else show_nat (n div 10) @ [char_of (48 + n mod 10)])"

declare show_nat.simps [simp del]

text \<open>\<^verbatim>\<open>toLowerCase\<close> on the letters A to Z.\<close>

definition to_lower :: "string \<Rightarrow> string" where
  "to_lower str =
     map (\<lambda>ch. if 65 \<le> (of_char ch :: nat) \<and> (of_char ch :: nat) \<le> 90
                then char_of ((of_char ch :: nat) + 32) else ch) str"

subsection \<open>The knowledge store\<close>

definition store :: "collaborators \<Rightarrow> request \<Rightarrow> controller \<Rightarrow> (exn + unit) \<times> controller" where
  "store c req s =
     (snd (store_reply c (stores s)),
      s\<lparr> now := now s + int (fst (store_reply c (stores s))),
         stores := Suc (stores s),
         issued := issued s @ [req] \<rparr>)"

definition storeEpisode ::
  "collaborators \<Rightarrow> episode \<Rightarrow> string \<Rightarrow> real \<Rightarrow> controller \<Rightarrow> (exn + unit) \<times> controller" where
  "storeEpisode c content ty importance s = store c (StoreEpisode content ty importance) s"

definition storeDocument ::
  "collaborators \<Rightarrow> string \<Rightarrow> MissionResult \<Rightarrow> controller \<Rightarrow> (exn + unit) \<times> controller" where
  "storeDocument c title result s = store c (StoreDocument title result) s"

definition storeMissionResult ::
  "collaborators \<Rightarrow> string \<Rightarrow> MissionResult \<Rightarrow> controller \<Rightarrow> (exn + unit) \<times> controller" where
  "storeMissionResult c mid result s = storeDocument c (''Mission Result: '' @ mid) result s"

definition storePattern ::
  "collaborators \<Rightarrow> MissionType \<Rightarrow> nat \<Rightarrow> real \<Rightarrow> controller \<Rightarrow> (exn + unit) \<times> controller" where
  "storePattern c ty iters conf s = store c (StorePattern ty iters conf) s"

subsection \<open>Perception\<close>

text \<open>
  \<^verbatim>\<open>VideoAgentClient.detectObjects\<close>: the detections of the frame at or above the threshold;
  any failure of \<^verbatim>\<open>processFrame\<close> is caught and gives the empty list.
\<close>

definition detectObjects ::
  "collaborators \<Rightarrow> string \<Rightarrow> real \<Rightarrow> controller \<Rightarrow> Detection list \<times> controller" where
  "detectObjects c imageUrl threshold s =
     (let s1 = s\<lparr> now := now s + int (fst (processFrame_reply c (frames s))),
                  frames := Suc (frames s) \<rparr> in
      case snd (processFrame_reply c (frames s)) of
        Inl e \<Rightarrow> ([], s1)
      | Inr detections \<Rightarrow>
          (filter (\<lambda>d. det_confidence d \<ge> threshold)
             (case detections of Some ds \<Rightarrow> ds | None \<Rightarrow> []), s1))"

text \<open>
  The lookup in \<^verbatim>\<open>categoryMap\<close>, with UNKNOWN for a key that is not in the table (the properties
  that every JavaScript object inherits are not among the keys modelled).
\<close>

definition mapToObjectClassification :: "string \<Rightarrow> ObjectClassification" where
  "mapToObjectClassification cat =
     (let key = to_lower cat in
      if key = ''person'' then PERSON
      else if key = ''vehicle'' then VEHICLE
      else if key = ''bicycle'' then BICYCLE
      else if key = ''animal'' then ANIMAL
      else if key = ''building'' then BUILDING
      else if key = ''tree'' then TREE
      else if key = ''sign'' then SIGN
      else if key = ''traffic_light'' then TRAFFIC_LIGHT
      else if key = ''package'' then PACKAGE
      else if key = ''equipment'' then EQUIPMENT
      else if key = ''infrastructure'' then INFRASTRUCTURE
      else UNKNOWN)"

definition calculateSafetyPriority :: "string \<Rightarrow> Priority" where
  "calculateSafetyPriority cat =
     (if to_lower cat = ''person'' then HIGH
      else if to_lower cat = ''vehicle'' then HIGH
      else if to_lower cat = ''bicycle'' then MEDIUM
      else LOW)"

definition track :: "collaborators \<Rightarrow> Position3D \<Rightarrow> int \<Rightarrow> nat \<times> Detection \<Rightarrow> TrackedObject" where
  "track c pos t kd =
     \<lparr> obj_id = (case det_id (snd kd) of
                   Some i \<Rightarrow> (if i = [] then random_id c t (fst kd) else i)
                 | None \<Rightarrow> random_id c t (fst kd)),
       obj_position = pos,
       classification = mapToObjectClassification (category (snd kd)),
       obj_confidence = det_confidence (snd kd),
       priority = calculateSafetyPriority (category (snd kd)),
       firstDetected = t,
       lastSeen = t,
       trackingHistory = [pos],
       meta_type = category (snd kd),
       meta_description = label (snd kd) \<rparr>"

definition assessSituation :: "collaborators \<Rightarrow> controller \<Rightarrow> WorldState \<times> controller" where
  "assessSituation c s =
     (let pos = \<lparr> latitude = 0, longitude = 0, altitude = 0, timestamp = now s \<rparr> in
      case detectObjects c ''current_frame_url'' (7 / 10) s of
        (visualData, s1) \<Rightarrow>
          (let ws = \<lparr> ws_timestamp = now s1,
                      position = pos,
                      velocity = \<lparr> vx = 0, vy = 0, vz = 0, speed = 0, heading = 0 \<rparr>,
                      attitude = [0, 0, 0],
                      trackedObjects = map (track c pos (now s1)) (enumerate 0 visualData),
                      health = \<lparr> battery = 100, temperature = 25, errors = [] \<rparr>,
                      environment = \<lparr> windSpeed = Some 5, env_temperature = Some 20,
                                      humidity = Some 60, visibility = Some 10000 \<rparr> \<rparr>
           in (ws, s1\<lparr> worldState := Some ws \<rparr>)))"

subsection \<open>Planning\<close>

definition is_person :: "TrackedObject \<Rightarrow> bool" where
  "is_person obj = (classification obj = PERSON)"

definition no_active_mission :: exn where
  "no_active_mission = RoboticsError ''No active mission'' ''MISSION_ERROR'' 500 NoDetails"

text \<open>
  \<^verbatim>\<open>planNextAction\<close>: the situation, options and constraints sent to the reasoning service
  are strings built from the state; the answer is an input, so only the call is recorded. A
  failure of the call is rethrown.
\<close>

definition planNextAction ::
  "collaborators \<Rightarrow> WorldState \<Rightarrow> controller \<Rightarrow> (exn + Action) \<times> controller" where
  "planNextAction c st s =
     (case mission s of
        None \<Rightarrow> (Inl no_active_mission, s)
      | Some m \<Rightarrow>
          (let s1 = s\<lparr> now := now s + int (fst (decision_reply c (decisions s))),
                       decisions := Suc (decisions s) \<rparr> in
           case snd (decision_reply c (decisions s)) of
             Inl e \<Rightarrow> (Inl e, s1)
           | Inr decision \<Rightarrow>
               (Inr \<lparr> action_type = action_type decision, reasoning = reasoning decision,
                       action_confidence = action_confidence decision \<rparr>, s1)))"

subsection \<open>Action handlers\<close>

definition no_mission_or_world_state :: ActionResult where
  "no_mission_or_world_state =
     \<lparr> success = False, result_message = ''No mission or world state'', extra = NoPayload \<rparr>"

definition inspectArea :: "collaborators \<Rightarrow> controller \<Rightarrow> (exn + ActionResult) \<times> controller" where
  "inspectArea c s =
     (case (mission s, worldState s) of
        (Some m, Some ws) \<Rightarrow>
          (case storeEpisode c
                  (AreaInspected (position ws) (now s) (length (trackedObjects ws)) (environment ws))
                  ''inspection'' (8 / 10) s of
             (Inl e, s1) \<Rightarrow> (Inl e, s1)
           | (Inr u, s1) \<Rightarrow>
               (Inr \<lparr> success = True, result_message = ''Area inspection completed'',
                       extra = InspectionData (position ws) (now s) (length (trackedObjects ws))
                                 (environment ws) \<rparr>, s1))
      | _ \<Rightarrow> (Inr no_mission_or_world_state, s))"

definition collectData :: "collaborators \<Rightarrow> controller \<Rightarrow> (exn + ActionResult) \<times> controller" where
  "collectData c s =
     (case (mission s, worldState s) of
        (Some m, Some ws) \<Rightarrow>
          (case storeEpisode c
                  (DataCollected (position ws) (now s) (environment ws)
                     [''temperature'', ''humidity'', ''imagery''])
                  ''data_collection'' (7 / 10) s of
             (Inl e, s1) \<Rightarrow> (Inl e, s1)
           | (Inr u, s1) \<Rightarrow>
               (Inr \<lparr> success = True, result_message = ''Data collection completed'',
                       extra = CollectedData (position ws) (now s) (environment ws)
                                 [''temperature'', ''humidity'', ''imagery''] \<rparr>, s1))
      | _ \<Rightarrow> (Inr no_mission_or_world_state, s))"

definition deliverPackage :: "collaborators \<Rightarrow> controller \<Rightarrow> (exn + ActionResult) \<times> controller" where
  "deliverPackage c s =
     (case (mission s, worldState s) of
        (Some m, Some ws) \<Rightarrow>
          (let peopleNearby = filter is_person (trackedObjects ws) in
           if length peopleNearby = 0 then
             (Inr \<lparr> success = False,
                     result_message = ''No recipient detected, aborting delivery'',
                     extra = NoPayload \<rparr>, s)
           else
             (case storeEpisode c (PackageDelivered (position ws)) ''delivery'' (9 / 10) s of
                (Inl e, s1) \<Rightarrow> (Inl e, s1)
              | (Inr u, s1) \<Rightarrow>
                  (Inr \<lparr> success = True, result_message = ''Package delivered successfully'',
                          extra = Location (position ws) \<rparr>, s1)))
      | _ \<Rightarrow> (Inr no_mission_or_world_state, s))"

definition scan_result :: "TrackedObject list \<Rightarrow> ActionResult" where
  "scan_result peopleDetected =
     \<lparr> success = True,
       result_message = ''Scan complete: '' @ show_nat (length peopleDetected) @ '' people detected'',
       extra = PeopleDetected
                 (map (\<lambda>p. (obj_id p, obj_position p, obj_confidence p)) peopleDetected) \<rparr>"

definition scanForPeople :: "collaborators \<Rightarrow> controller \<Rightarrow> (exn + ActionResult) \<times> controller" where
  "scanForPeople c s =
     (case (mission s, worldState s) of
        (Some m, Some ws) \<Rightarrow>
          (let peopleDetected = filter is_person (trackedObjects ws) in
           if length peopleDetected > 0 then
             (case storeEpisode c (PeopleFound (length peopleDetected) (position ws))
                     ''person_detection'' 1 s of
                (Inl e, s1) \<Rightarrow> (Inl e, s1)
              | (Inr u, s1) \<Rightarrow> (Inr (scan_result peopleDetected), s1))
           else (Inr (scan_result peopleDetected), s))
      | _ \<Rightarrow> (Inr no_mission_or_world_state, s))"

definition pauseForSafety :: "collaborators \<Rightarrow> controller \<Rightarrow> (exn + ActionResult) \<times> controller" where
  "pauseForSafety c s =
     (case worldState s of
        None \<Rightarrow> (Inr \<lparr> success = False, result_message = ''No world state'', extra = NoPayload \<rparr>, s)
      | Some ws \<Rightarrow>
          (case storeEpisode c (SafetyPause (length (filter is_person (trackedObjects ws))))
                  ''safety_pause'' (8 / 10) s of
             (Inl e, s1) \<Rightarrow> (Inl e, s1)
           | (Inr u, s1) \<Rightarrow>
               (Inr \<lparr> success = True, result_message = ''Safety pause completed'',
                       extra = PauseDuration 5000 \<rparr>, controller_sleep 5000 s1)))"

text \<open>The \<^verbatim>\<open>case\<close> label of the \<^verbatim>\<open>switch\<close> in \<^verbatim>\<open>executeAction\<close> that an action type selects.\<close>

datatype case_label =
    CONTINUE_PATH | AVOID_OBSTACLE | INSPECT_AREA | COLLECT_DATA | DELIVER_PACKAGE
  | SCAN_FOR_PEOPLE | RETURN_TO_BASE | PAUSE_FOR_SAFETY | ABORT | DEFAULT

definition switch_on :: "string \<Rightarrow> case_label" where
  "switch_on ty =
     (if ty = ''continue_path'' then CONTINUE_PATH
      else if ty = ''avoid_obstacle'' then AVOID_OBSTACLE
      else if ty = ''inspect_area'' then INSPECT_AREA
      else if ty = ''collect_data'' then COLLECT_DATA
      else if ty = ''deliver_package'' then DELIVER_PACKAGE
      else if ty = ''scan_for_people'' then SCAN_FOR_PEOPLE
      else if ty = ''return_to_base'' then RETURN_TO_BASE
      else if ty = ''pause_for_safety'' then PAUSE_FOR_SAFETY
      else if ty = ''abort'' then ABORT
      else DEFAULT)"

text \<open>\<^verbatim>\<open>executeAction\<close>: the write of the action episode, then the \<^verbatim>\<open>switch\<close> on the type.\<close>

definition executeAction ::
  "collaborators \<Rightarrow> Action \<Rightarrow> controller \<Rightarrow> (exn + ActionResult) \<times> controller" where
  "executeAction c action s =
     (case storeEpisode c (ActionExecuted (action_type action) (reasoning action))
             ''action'' (7 / 10) s of
        (Inl e, s1) \<Rightarrow> (Inl e, s1)
      | (Inr u, s1) \<Rightarrow>
          (case switch_on (action_type action) of
             CONTINUE_PATH \<Rightarrow>
               (Inr \<lparr> success = True, result_message = ''Continuing on planned path'',
                       extra = NoPayload \<rparr>, s1)
           | AVOID_OBSTACLE \<Rightarrow>
               (Inr \<lparr> success = True, result_message = ''Obstacle avoidance maneuver executed'',
                       extra = NoPayload \<rparr>, s1)
           | INSPECT_AREA \<Rightarrow> inspectArea c s1
           | COLLECT_DATA \<Rightarrow> collectData c s1
           | DELIVER_PACKAGE \<Rightarrow> deliverPackage c s1
           | SCAN_FOR_PEOPLE \<Rightarrow> scanForPeople c s1
           | RETURN_TO_BASE \<Rightarrow>
               (Inr \<lparr> success = True, result_message = ''Returning to base'',
                       extra = ActionCode ''RTB'' \<rparr>, s1)
           | PAUSE_FOR_SAFETY \<Rightarrow> pauseForSafety c s1
           | ABORT \<Rightarrow>
               (Inr \<lparr> success = False, result_message = ''Mission aborted'', extra = NoPayload \<rparr>, s1)
           | DEFAULT \<Rightarrow>
               (Inr \<lparr> success = False, result_message = ''Unknown action'', extra = NoPayload \<rparr>, s1)))"

subsection \<open>Observation\<close>

definition observeOutcome :: "collaborators \<Rightarrow> ActionResult \<Rightarrow> controller \<Rightarrow> Observation \<times> controller" where
  "observeOutcome c actionResult s =
     (case assessSituation c s of
        (updatedState, s1) \<Rightarrow>
          (\<lparr> actionSuccess = success actionResult, newState = updatedState,
              obs_timestamp = now s1 \<rparr>, s1))"

definition updateWorldModel :: "collaborators \<Rightarrow> Observation \<Rightarrow> controller \<Rightarrow> (exn + unit) \<times> controller" where
  "updateWorldModel c observation s =
     storeEpisode c WorldStateUpdated ''observation'' (5 / 10)
       (s\<lparr> worldState := Some (newState observation) \<rparr>)"

subsection \<open>Evaluation\<close>

definition high_priority_person :: "TrackedObject \<Rightarrow> bool" where
  "high_priority_person obj = (classification obj = PERSON \<and> priority obj = HIGH)"

text \<open>
  \<^verbatim>\<open>evaluateProgress\<close> reads the two fields and has no effect; the progress ratio it computes
  is only logged.
\<close>

definition evaluateProgress :: "Mission option \<Rightarrow> WorldState option \<Rightarrow> Evaluation" where
  "evaluateProgress mo wo =
     (case (mo, wo) of
        (Some m, Some ws) \<Rightarrow>
          (let peopleNearby = filter high_priority_person (trackedObjects ws);
               safetyDist = or_real (safetyDistance (constraints m)) 5;
               limits = weatherLimits (constraints m)
           in
           if length peopleNearby > 3 then
             \<lparr> needsReplanning = True, shouldAbort = False,
               eval_reason = Some (MultiplePeopleNearby (length peopleNearby) safetyDist) \<rparr>
           else if truthy (windSpeed (environment ws)) \<and> truthy (maxWindSpeed limits)
                   \<and> the (windSpeed (environment ws)) > the (maxWindSpeed limits) then
             \<lparr> needsReplanning = False, shouldAbort = True,
               eval_reason = Some (WindExceedsLimits (the (windSpeed (environment ws)))) \<rparr>
           else if truthy (visibility (environment ws)) \<and> truthy (minVisibility limits)
                   \<and> the (visibility (environment ws)) < the (minVisibility limits) then
             \<lparr> needsReplanning = False, shouldAbort = True,
               eval_reason = Some (VisibilityBelowLimits (the (visibility (environment ws)))) \<rparr>
           else
             (let reserve = or_real (batteryReserve (constraints m)) 20 in
              if battery (health ws) < reserve then
                \<lparr> needsReplanning = False, shouldAbort = True,
                  eval_reason = Some (LowBattery (battery (health ws))) \<rparr>
              else if length (errors (health ws)) > 0 then
                \<lparr> needsReplanning = True, shouldAbort = False,
                  eval_reason = Some (SystemErrors (errors (health ws))) \<rparr>
              else \<lparr> needsReplanning = False, shouldAbort = False, eval_reason = None \<rparr>))
      | _ \<Rightarrow>
          \<lparr> needsReplanning = False, shouldAbort = True,
            eval_reason = Some NoMissionOrWorldState \<rparr>)"

definition replanMission :: "collaborators \<Rightarrow> reason \<Rightarrow> controller \<Rightarrow> (exn + unit) \<times> controller" where
  "replanMission c why s = storeEpisode c (MissionReplanning why) ''replanning'' (8 / 10) s"

definition isMissionComplete :: "controller \<Rightarrow> bool" where
  "isMissionComplete s =
     (case mission s of
        None \<Rightarrow> False
      | Some m \<Rightarrow>
          list_all completed (objectives m) \<or> status m = ABORTED \<or> status m = FAILED)"

subsection \<open>Finalisation\<close>

definition no_mission_to_finalize :: exn where
  "no_mission_to_finalize =
     RoboticsError ''No active mission to finalize'' ''MISSION_ERROR'' 500 NoDetails"

definition finalizeMission :: "collaborators \<Rightarrow> controller \<Rightarrow> (exn + MissionResult) \<times> controller" where
  "finalizeMission c s =
     (case mission s of
        None \<Rightarrow> (Inl no_mission_to_finalize, s)
      | Some m \<Rightarrow>
          (let endTime = now s;
               completedObjectives = length (filter completed (objectives m));
               result =
                 \<lparr> missionId = mission_id m,
                   result_status = status m,
                   objectivesCompleted = completedObjectives,
                   objectivesTotal = length (objectives m),
                   duration = real_of_int (endTime - startTime s) / 1000,
                   distanceTraveled = 0,
                   energyConsumed = 0,
                   lessons =
                     [''Completed '' @ show_nat completedObjectives @ ''/''
                        @ show_nat (length (objectives m)) @ '' objectives'',
                      ''Took '' @ show_nat (iteration s) @ '' iterations'',
                      ''Safety-first approach maintained throughout mission''] \<rparr>
           in
           case storeMissionResult c (mission_id m) result s of
             (Inl e, s1) \<Rightarrow> (Inl e, s1)
           | (Inr u, s1) \<Rightarrow>
               if result_status result = COMPLETED then
                 (case storePattern c (mission_type m) (iteration s) (9 / 10) s1 of
                    (Inl e, s2) \<Rightarrow> (Inl e, s2)
                  | (Inr u2, s2) \<Rightarrow> (Inr result, s2))
               else (Inr result, s1)))"

subsection \<open>The loop\<close>

definition set_status :: "MissionStatus \<Rightarrow> controller \<Rightarrow> controller" where
  "set_status st s = s\<lparr> mission := map_option (\<lambda>m. m\<lparr> status := st \<rparr>) (mission s) \<rparr>"

text \<open>
  The body of the \<^verbatim>\<open>while\<close> loop after \<^verbatim>\<open>this.iteration++\<close>. It returns \<open>True\<close> when the loop
  is left by \<^verbatim>\<open>break\<close>, and raises what any of its steps raises.
\<close>

definition react_iteration :: "collaborators \<Rightarrow> controller \<Rightarrow> (exn + bool) \<times> controller" where
  "react_iteration c s =
     (case assessSituation c s of
        (st, s1) \<Rightarrow>
     (case planNextAction c st s1 of
        (Inl e, s2) \<Rightarrow> (Inl e, s2)
      | (Inr action, s2) \<Rightarrow>
     (case executeAction c action s2 of
        (Inl e, s3) \<Rightarrow> (Inl e, s3)
      | (Inr actionResult, s3) \<Rightarrow>
     (case observeOutcome c actionResult s3 of
        (observation, s4) \<Rightarrow>
     (case updateWorldModel c observation s4 of
        (Inl e, s5) \<Rightarrow> (Inl e, s5)
      | (Inr u, s5) \<Rightarrow>
     (let evaluation = evaluateProgress (mission s5) (worldState s5) in
      case (if needsReplanning evaluation
            then replanMission c
                   (case eval_reason evaluation of Some r \<Rightarrow> r | None \<Rightarrow> ReplanningRequired) s5
            else (Inr (), s5)) of
        (Inl e, s6) \<Rightarrow> (Inl e, s6)
      | (Inr u2, s6) \<Rightarrow>
          if shouldAbort evaluation then (Inr True, set_status ABORTED s6)
          else (Inr False, controller_sleep 100 s6)))))))"

text \<open>
  The \<^verbatim>\<open>while\<close> loop of \<^verbatim>\<open>executeMission\<close>. No step of the body assigns \<^verbatim>\<open>this.iteration\<close>, so
  the distance to \<open>maxIterations\<close> shrinks with every round.
\<close>

function react_loop :: "collaborators \<Rightarrow> controller \<Rightarrow> (exn + unit) \<times> controller" where
  "react_loop c s =
     (if iteration s < maxIterations \<and> \<not> isMissionComplete s then
        (case react_iteration c (s\<lparr> iteration := iteration s + 1 \<rparr>) of
           (Inl e, s1) \<Rightarrow> (Inl e, s1)
         | (Inr brk, s1) \<Rightarrow> if brk then (Inr (), s1) else react_loop c s1)
      else (Inr (), s))"
  by pat_completeness auto
termination
proof (relation "measure (\<lambda>(c, s). maxIterations - iteration s)")
  show "wf (measure (\<lambda>(c, s). maxIterations - iteration s))" by simp
next
  fix c s x y b
  assume a: "iteration s < maxIterations \<and> \<not> isMissionComplete s"
    and r: "(x, y) = react_iteration c (s\<lparr>iteration := iteration s + 1\<rparr>)"
  have st: "iteration (snd (storeEpisode c e k i t)) = iteration t" for e k i t
    by (simp add: storeEpisode_def store_def)
  have sl: "iteration (controller_sleep ms t) = iteration t" for ms t
    by (simp add: controller_sleep_def)
  have assess: "iteration (snd (assessSituation c t)) = iteration t" for t
    by (simp add: assessSituation_def detectObjects_def Let_def case_prod_beta split: sum.splits)
  have plan: "iteration (snd (planNextAction c w t)) = iteration t" for w t
    by (simp add: planNextAction_def Let_def split: option.splits sum.splits)
  have inspect: "iteration (snd (inspectArea c t)) = iteration t" for t
    by (simp add: inspectArea_def case_prod_beta st split: option.splits sum.splits)
  have collect: "iteration (snd (collectData c t)) = iteration t" for t
    by (simp add: collectData_def case_prod_beta st split: option.splits sum.splits)
  have deliver: "iteration (snd (deliverPackage c t)) = iteration t" for t
    by (simp add: deliverPackage_def case_prod_beta Let_def st split: option.splits sum.splits)
  have scan: "iteration (snd (scanForPeople c t)) = iteration t" for t
    by (simp add: scanForPeople_def case_prod_beta Let_def st split: option.splits sum.splits)
  have pause: "iteration (snd (pauseForSafety c t)) = iteration t" for t
    by (simp add: pauseForSafety_def case_prod_beta st sl split: option.splits sum.splits)
  have exec: "iteration (snd (executeAction c act t)) = iteration t" for act t
    by (simp add: executeAction_def case_prod_beta st inspect collect deliver scan pause
        split: sum.splits case_label.splits)
  have obs: "iteration (snd (observeOutcome c res t)) = iteration t" for res t
    by (simp add: observeOutcome_def case_prod_beta assess)
  have upd: "iteration (snd (updateWorldModel c ob t)) = iteration t" for ob t
    by (simp add: updateWorldModel_def st)
  have replan: "iteration (snd (replanMission c why t)) = iteration t" for why t
    by (simp add: replanMission_def st)
  have "iteration (snd (react_iteration c t)) = iteration t" for t
    by (simp add: react_iteration_def case_prod_beta Let_def set_status_def sl
        assess plan exec obs upd replan split: sum.splits)
  from this [of "s\<lparr>iteration := iteration s + 1\<rparr>"] r have "iteration y = iteration s + 1"
    by (metis snd_conv select_convs(3) surjective update_convs(3))
  with a show "((c, y), c, s) \<in> measure (\<lambda>(c, s). maxIterations - iteration s)"
    by auto
qed

subsection \<open>executeMission\<close>

definition exn_message :: "exn \<Rightarrow> string" where
  "exn_message e = (case e of RoboticsError m cd st dt \<Rightarrow> m | TypeError \<Rightarrow> ''TypeError'')"

definition mission_failed :: "Mission \<Rightarrow> nat \<Rightarrow> exn \<Rightarrow> exn" where
  "mission_failed m iter error =
     RoboticsError (''Mission execution failed: '' @ exn_message error) ''MISSION_ERROR'' 500
       (MissionDetails (mission_id m) iter)"

text \<open>
  The write of the start episode comes before the \<^verbatim>\<open>try\<close>: what it raises leaves
  \<^verbatim>\<open>executeMission\<close> as it is. The \<^verbatim>\<open>try\<close> block is the loop and \<^verbatim>\<open>finalizeMission\<close>; the
  \<^verbatim>\<open>catch\<close> sets the status to FAILED and raises a mission error.
\<close>

definition try_block :: "collaborators \<Rightarrow> controller \<Rightarrow> (exn + MissionResult) \<times> controller" where
  "try_block c s =
     (case react_loop c s of
        (Inl e, s1) \<Rightarrow> (Inl e, s1)
      | (Inr u, s1) \<Rightarrow> finalizeMission c s1)"

definition executeMission ::
  "collaborators \<Rightarrow> Mission \<Rightarrow> controller \<Rightarrow> (exn + MissionResult) \<times> controller" where
  "executeMission c m s =
     (case storeEpisode c (MissionStarted (mission_name m) (mission_type m)) ''mission_start''
             (9 / 10) (s\<lparr> mission := Some m, iteration := 0, startTime := now s \<rparr>) of
        (Inl e, s1) \<Rightarrow> (Inl e, s1)
      | (Inr u, s1) \<Rightarrow>
          (case try_block c s1 of
             (Inr result, s2) \<Rightarrow> (Inr result, s2)
           | (Inl error, s2) \<Rightarrow>
               (Inl (mission_failed m (iteration s2) error), set_status FAILED s2)))"

subsection \<open>The evaluation rules as the specification lists them\<close>

text \<open>
  The five conditions in the words of the specification, each with the outcome it gives, in
  the order crowding, wind, visibility, battery, system errors; \<open>first_match\<close> takes the
  outcome of the first condition that holds, and "continue" when none does. The wind speed
  exceeds the limit, and the visibility is below the limit, when both numbers are there and
  compare so; a missing reading or a missing limit breaches nothing.
\<close>

definition crowded :: "WorldState \<Rightarrow> bool" where
  "crowded ws = (length (filter high_priority_person (trackedObjects ws)) > 3)"

definition wind_breached :: "Mission \<Rightarrow> WorldState \<Rightarrow> bool" where
  "wind_breached m ws =
     (case (windSpeed (environment ws), maxWindSpeed (weatherLimits (constraints m))) of
        (Some w, Some bound) \<Rightarrow> w > bound
      | _ \<Rightarrow> False)"

definition visibility_breached :: "Mission \<Rightarrow> WorldState \<Rightarrow> bool" where
  "visibility_breached m ws =
     (case (visibility (environment ws), minVisibility (weatherLimits (constraints m))) of
        (Some v, Some bound) \<Rightarrow> v < bound
      | _ \<Rightarrow> False)"

definition battery_low :: "Mission \<Rightarrow> WorldState \<Rightarrow> bool" where
  "battery_low m ws = (battery (health ws) < or_real (batteryReserve (constraints m)) 20)"

definition system_faulty :: "WorldState \<Rightarrow> bool" where
  "system_faulty ws = (errors (health ws) \<noteq> [])"

definition replan_for :: "reason \<Rightarrow> Evaluation" where
  "replan_for why = \<lparr> needsReplanning = True, shouldAbort = False, eval_reason = Some why \<rparr>"

definition abort_for :: "reason \<Rightarrow> Evaluation" where
  "abort_for why = \<lparr> needsReplanning = False, shouldAbort = True, eval_reason = Some why \<rparr>"

definition continue_mission :: Evaluation where
  "continue_mission = \<lparr> needsReplanning = False, shouldAbort = False, eval_reason = None \<rparr>"

fun first_match :: "(bool \<times> Evaluation) list \<Rightarrow> Evaluation" where
  "first_match [] = continue_mission"
| "first_match ((cond, outcome) # rules) = (if cond then outcome else first_match rules)"

definition evaluation_rules :: "Mission \<Rightarrow> WorldState \<Rightarrow> (bool \<times> Evaluation) list" where
  "evaluation_rules m ws =
     [(crowded ws,
         replan_for (MultiplePeopleNearby (length (filter high_priority_person (trackedObjects ws)))
                       (or_real (safetyDistance (constraints m)) 5))),
      (wind_breached m ws, abort_for (WindExceedsLimits (the (windSpeed (environment ws))))),
      (visibility_breached m ws,
         abort_for (VisibilityBelowLimits (the (visibility (environment ws))))),
      (battery_low m ws, abort_for (LowBattery (battery (health ws)))),
      (system_faulty ws, replan_for (SystemErrors (errors (health ws))))]"

subsection \<open>Concrete missions, world states and collaborators\<close>

definition demo_mission :: Mission where
  "demo_mission =
     \<lparr> mission_id = ''m-1'', mission_name = ''Parcel run'', mission_type = DELIVERY,
       status = IN_PROGRESS, mission_mode = AUTONOMOUS,
       objectives = [\<lparr> objective_id = ''o-1'', kind = PRIMARY, completed = False \<rparr>],
       constraints =
         \<lparr> maxAltitude = Some 120, batteryReserve = 20,
           weatherLimits = \<lparr> maxWindSpeed = Some 12, minVisibility = Some 1000 \<rparr>,
           safetyDistance = 5 \<rparr> \<rparr>"

text \<open>A mission that allows no wind at all, and a world state with a visibility of zero.\<close>

definition still_air_mission :: Mission where
  "still_air_mission =
     demo_mission\<lparr> constraints :=
       (constraints demo_mission)\<lparr> weatherLimits :=
          \<lparr> maxWindSpeed = Some 0, minVisibility = Some 1000 \<rparr> \<rparr> \<rparr>"

definition fog_state :: WorldState where
  "fog_state =
     \<lparr> ws_timestamp = 0,
       position = \<lparr> latitude = 0, longitude = 0, altitude = 0, timestamp = 0 \<rparr>,
       velocity = \<lparr> vx = 0, vy = 0, vz = 0, speed = 0, heading = 0 \<rparr>,
       attitude = [0, 0, 0], trackedObjects = [],
       health = \<lparr> battery = 100, temperature = 25, errors = [] \<rparr>,
       environment = \<lparr> windSpeed = Some 5, env_temperature = Some 20, humidity = Some 60,
                       visibility = Some 0 \<rparr> \<rparr>"

definition finished_mission :: Mission where
  "finished_mission =
     demo_mission\<lparr> objectives := [\<lparr> objective_id = ''o-1'', kind = PRIMARY, completed = True \<rparr>] \<rparr>"

definition origin :: Position3D where
  "origin = \<lparr> latitude = 0, longitude = 0, altitude = 0, timestamp = 0 \<rparr>"

definition bystander :: TrackedObject where
  "bystander =
     \<lparr> obj_id = ''p'', obj_position = origin, classification = PERSON, obj_confidence = 9 / 10,
       priority = HIGH, firstDetected = 0, lastSeen = 0, trackingHistory = [origin],
       meta_type = ''person'', meta_description = ''pedestrian'' \<rparr>"

definition parked_car :: TrackedObject where
  "parked_car =
     bystander\<lparr> obj_id := ''v'', classification := VEHICLE, meta_type := ''vehicle'',
       meta_description := ''car'' \<rparr>"

text \<open>Wind of 15 m/s and a battery at 10 percent, with the given tracked objects.\<close>

definition storm_state :: "TrackedObject list \<Rightarrow> WorldState" where
  "storm_state objs =
     \<lparr> ws_timestamp = 0, position = origin,
       velocity = \<lparr> vx = 0, vy = 0, vz = 0, speed = 0, heading = 0 \<rparr>,
       attitude = [0, 0, 0], trackedObjects = objs,
       health = \<lparr> battery = 10, temperature = 25, errors = [] \<rparr>,
       environment = \<lparr> windSpeed = Some 15, env_temperature = Some 20, humidity = Some 60,
                       visibility = Some 10000 \<rparr> \<rparr>"

definition idle_controller :: controller where
  "idle_controller =
     \<lparr> mission = None, worldState = None, iteration = 0, startTime = 0, now = 0,
       frames = 0, decisions = 0, stores = 0, issued = [], pauses = [] \<rparr>"

definition store_unavailable :: exn where
  "store_unavailable =
     RoboticsError ''GraphRAG: timeout of 30000ms exceeded'' ''UNKNOWN_ERROR'' 500
       (ServiceDetails ''GraphRAG'' ''timeout of 30000ms exceeded'' None)"

text \<open>
  Collaborators that always answer: an empty frame, the decision \<^verbatim>\<open>continue_path\<close>, and a
  store that takes 40 ms per write. In \<open>store_fails_at n\<close> the \<open>n\<close>-th write raises instead.
\<close>

definition healthy_services :: collaborators where
  "healthy_services =
     \<lparr> processFrame_reply = (\<lambda>n. (0, Inr (Some []))),
       decision_reply =
         (\<lambda>n. (0, Inr \<lparr> action_type = ''continue_path'', reasoning = ''on track'',
                         action_confidence = 9 / 10 \<rparr>)),
       store_reply = (\<lambda>n. (40, Inr ())),
       random_id = (\<lambda>t k. ''obj'') \<rparr>"

definition store_fails_at :: "nat \<Rightarrow> collaborators" where
  "store_fails_at n =
     healthy_services\<lparr> store_reply := (\<lambda>k. if k = n then (40, Inl store_unavailable) else (40, Inr ())) \<rparr>"

definition windy_mission :: Mission where
  "windy_mission =
     demo_mission\<lparr> constraints :=
       (constraints demo_mission)\<lparr> weatherLimits :=
          \<lparr> maxWindSpeed = Some 3, minVisibility = Some 1000 \<rparr> \<rparr> \<rparr>"

definition go_on :: Action where
  "go_on = \<lparr> action_type = ''continue_path'', reasoning = ''on track'', action_confidence = 9 / 10 \<rparr>"

definition deliver :: Action where
  "deliver =
     \<lparr> action_type = ''deliver_package'', reasoning = ''at the door'', action_confidence = 9 / 10 \<rparr>"

definition empty_street :: controller where
  "empty_street =
     idle_controller\<lparr> mission := Some demo_mission, worldState := Some (storm_state [parked_car]) \<rparr>"

subsection \<open>Store writes between two states\<close>

text \<open>
  Every write to the knowledge store issued between the state \<open>s\<close> and the later state \<open>s'\<close>
  was answered without an error.
\<close>

definition writes_succeeded :: "collaborators \<Rightarrow> controller \<Rightarrow> controller \<Rightarrow> bool" where
  "writes_succeeded c s s' =
     (stores s \<le> stores s'
      \<and> (\<forall>k. stores s \<le> k \<and> k < stores s' \<longrightarrow> snd (store_reply c k) = Inr ()))"

section \<open>Properties of the client\<close>

declare attempt_loop.simps [simp del]

lemma attempt_loop_client_error:
  assumes "attempt \<le> maxA" and "snd (tr (sent w)) = Inl e" and "is_client_error e"
  shows "attempt_loop tr maxA attempt lastError bc w =
           (Inl (transformError bc e), bc,
            w\<lparr> clock := clock w + int (fst (tr (sent w))), sent := Suc (sent w) \<rparr>)"
  using assms by (simp add: attempt_loop.simps [of tr maxA attempt])

lemma attempt_loop_success:
  assumes "attempt \<le> maxA" and "snd (tr (sent w)) = Inr v"
  shows "attempt_loop tr maxA attempt lastError bc w =
           (Inr v, resetCircuitBreaker bc,
            observe (resetCircuitBreaker bc)
              (w\<lparr> clock := clock w + int (fst (tr (sent w))), sent := Suc (sent w) \<rparr>))"
  using assms by (simp add: attempt_loop.simps [of tr maxA attempt] Let_def)

lemma breaker_step_reset: "breaker_step (state (circuitBreaker bc)) (state (circuitBreaker (resetCircuitBreaker bc)))"
  by (cases "state (circuitBreaker bc)") (simp_all add: breaker_step_def spec_breaker_step_def resetCircuitBreaker_def)

lemma breaker_step_increment: "breaker_step (state (circuitBreaker bc)) (state (circuitBreaker (incrementCircuitBreakerFailure t bc)))"
  by (cases "state (circuitBreaker bc)") (simp_all add: breaker_step_def spec_breaker_step_def incrementCircuitBreakerFailure_def Let_def)

lemma attempt_loop_trace:
  "attempt_loop tr maxA attempt lastError bc w = (r, bc', w') \<Longrightarrow>
   \<exists>xs. observed w' = observed w @ xs
      \<and> successively breaker_step (state (circuitBreaker bc) # xs)
      \<and> last (state (circuitBreaker bc) # xs) = state (circuitBreaker bc')"
proof (induction tr maxA attempt lastError bc w arbitrary: r bc' w' rule: attempt_loop.induct)
  case (1 tr maxA attempt lastError bc w)
  show ?case
  proof (cases "attempt \<le> maxA")
    case False
    with "1.prems" have "bc' = bc" "w' = w" by (auto simp add: attempt_loop.simps [of tr maxA attempt])
    then show ?thesis by (intro exI [of _ "[]"]) simp
  next
    case le: True
    show ?thesis
    proof (cases "snd (tr (sent w))")
      case (Inr v)
      with le "1.prems" have eq: "bc' = resetCircuitBreaker bc"
        "observed w' = observed w @ [state (circuitBreaker (resetCircuitBreaker bc))]"
        by (auto simp add: attempt_loop_success observe_def)
      show ?thesis
        using breaker_step_reset [of bc] eq
        by (intro exI [of _ "[state (circuitBreaker (resetCircuitBreaker bc))]"]) simp
    next
      case (Inl e)
      show ?thesis
      proof (cases "is_client_error e")
        case True
        with le Inl "1.prems" have "bc' = bc" "observed w' = observed w"
          by (auto simp add: attempt_loop_client_error)
        then show ?thesis by (intro exI [of _ "[]"]) simp
      next
        case False
        define w1 where "w1 = w\<lparr> clock := clock w + int (fst (tr (sent w))), sent := Suc (sent w) \<rparr>"
        define bc1 where "bc1 = incrementCircuitBreakerFailure (clock w1) bc"
        define w2 where "w2 = observe bc1 w1"
        define w3 where "w3 = (if attempt < maxA
                          then sleep (delayMs (retryConfig bc)
                                 * backoffMultiplier (retryConfig bc) ^ (attempt - 1)) w2
                          else w2)"
        have step: "attempt_loop tr maxA attempt lastError bc w = attempt_loop tr maxA (Suc attempt) (Some e) bc1 w3"
          using le Inl False
          by (simp add: attempt_loop.simps [of tr maxA attempt] Let_def w1_def bc1_def w2_def w3_def)
        have rec: "attempt_loop tr maxA (Suc attempt) (Some e) bc1 w3 = (r, bc', w')"
          using step "1.prems" by simp
        from "1.IH" [OF le w1_def Inl False bc1_def w2_def w3_def rec]
        obtain xs where xs: "observed w' = observed w3 @ xs"
          "successively breaker_step (state (circuitBreaker bc1) # xs)"
          "last (state (circuitBreaker bc1) # xs) = state (circuitBreaker bc')"
          by blast
        have o3: "observed w3 = observed w @ [state (circuitBreaker bc1)]"
          by (simp add: w3_def w2_def w1_def observe_def sleep_def)
        have "breaker_step (state (circuitBreaker bc)) (state (circuitBreaker bc1))"
          unfolding bc1_def by (rule breaker_step_increment)
        with xs o3 show ?thesis
          by (intro exI [of _ "state (circuitBreaker bc1) # xs"]) (simp add: successively_Cons)
      qed
    qed
  qed
qed

lemma executeWithRetry_trace:
  assumes "executeWithRetry tr retries bc w = (r, bc', w')"
  shows "\<exists>xs. observed w' = observed w @ xs
      \<and> successively breaker_step (state (circuitBreaker bc) # xs)
      \<and> last (state (circuitBreaker bc) # xs) = state (circuitBreaker bc')"
proof -
  define maxA where "maxA = (attempts_of retries bc)"
  consider (blocked) "state (circuitBreaker bc) = OPEN" "clock w - lastFailureTime (circuitBreaker bc) < 30000"
    | (half) "state (circuitBreaker bc) = OPEN" "\<not> clock w - lastFailureTime (circuitBreaker bc) < 30000"
    | (through) "state (circuitBreaker bc) \<noteq> OPEN" by blast
  then show ?thesis
  proof cases
    case blocked
    with assms have "bc' = bc" "w' = w" by (auto simp: executeWithRetry_def)
    then show ?thesis by (intro exI [of _ "[]"]) simp
  next
    case half
    define bc1 where "bc1 = bc\<lparr> circuitBreaker := (circuitBreaker bc)\<lparr> state := HALF_OPEN \<rparr> \<rparr>"
    from half assms have run: "attempt_loop tr maxA 1 None bc1 (observe bc1 w) = (r, bc', w')"
      by (simp add: executeWithRetry_def maxA_def bc1_def Let_def)
    from attempt_loop_trace [OF run] obtain xs where xs:
      "observed w' = observed (observe bc1 w) @ xs"
      "successively breaker_step (state (circuitBreaker bc1) # xs)"
      "last (state (circuitBreaker bc1) # xs) = state (circuitBreaker bc')" by blast
    have s1: "state (circuitBreaker bc1) = HALF_OPEN" by (simp add: bc1_def)
    have "breaker_step (state (circuitBreaker bc)) HALF_OPEN" using half by (simp add: breaker_step_def spec_breaker_step_def)
    with xs s1 show ?thesis
      by (intro exI [of _ "HALF_OPEN # xs"]) (simp add: observe_def successively_Cons)
  next
    case through
    with assms have run: "attempt_loop tr maxA 1 None bc w = (r, bc', w')"
      by (simp add: executeWithRetry_def maxA_def Let_def)
    from attempt_loop_trace [OF run] show ?thesis .
  qed
qed

lemma run_calls_trace:
  "run_calls tr cs bc w = (bc', w') \<Longrightarrow>
   \<exists>xs. observed w' = observed w @ xs
      \<and> successively breaker_step (state (circuitBreaker bc) # xs)
      \<and> last (state (circuitBreaker bc) # xs) = state (circuitBreaker bc')"
proof (induction cs arbitrary: bc w)
  case Nil
  then have "bc' = bc" "w' = w" by auto
  then show ?case by (intro exI [of _ "[]"]) simp
next
  case (Cons c cs)
  obtain gap retries where c: "c = (gap, retries)" by (cases c)
  obtain r bc1 w1 where call: "executeWithRetry tr retries bc (w\<lparr> clock := clock w + int gap \<rparr>) = (r, bc1, w1)"
    by (metis prod_cases3)
  with Cons.prems c have rest: "run_calls tr cs bc1 w1 = (bc', w')" by simp
  from executeWithRetry_trace [OF call] obtain xs where xs:
    "observed w1 = observed w @ xs"
    "successively breaker_step (state (circuitBreaker bc) # xs)"
    "last (state (circuitBreaker bc) # xs) = state (circuitBreaker bc1)" by auto
  from Cons.IH [OF rest] obtain ys where ys:
    "observed w' = observed w1 @ ys"
    "successively breaker_step (state (circuitBreaker bc1) # ys)"
    "last (state (circuitBreaker bc1) # ys) = state (circuitBreaker bc')" by blast
  have chain: "successively breaker_step ((state (circuitBreaker bc) # xs) @ ys)"
  proof (cases ys)
    case Nil
    with xs show ?thesis by simp
  next
    case (Cons y ys')
    with ys(2) have "breaker_step (state (circuitBreaker bc1)) y" "successively breaker_step ys"
      by (simp_all add: successively_Cons)
    with xs(2,3) show ?thesis
      unfolding successively_append_iff using Cons by simp
  qed
  have lst: "last ((state (circuitBreaker bc) # xs) @ ys) = state (circuitBreaker bc')"
    using xs(3) ys(3) by (cases ys) simp_all
  from xs(1) ys(1) chain lst show ?case
    by (intro exI [of _ "xs @ ys"]) simp
qed

lemma retryable_atD:
  "retryable_at tr n \<Longrightarrow> \<exists>e. snd (tr n) = Inl e \<and> \<not> is_client_error e"
  by (auto simp: retryable_at_def split: sum.splits)

lemma attempt_loop_retry:
  assumes "attempt \<le> maxA" and "retryable_at tr (sent w)"
  shows "attempt_loop tr maxA attempt lastError bc w =
     (let w1 = w\<lparr> clock := clock w + int (fst (tr (sent w))), sent := Suc (sent w) \<rparr>;
          bc1 = incrementCircuitBreakerFailure (clock w1) bc;
          w2 = observe bc1 w1;
          w3 = (if attempt < maxA
                then sleep (delayMs (retryConfig bc)
                       * backoffMultiplier (retryConfig bc) ^ (attempt - 1)) w2
                else w2)
      in attempt_loop tr maxA (Suc attempt) (Some (projl (snd (tr (sent w))))) bc1 w3)"
  using assms retryable_atD [of tr "sent w"]
  by (auto simp add: attempt_loop.simps [of tr maxA attempt] Let_def)

lemma attempt_loop_exhausted:
  "maxA < attempt \<Longrightarrow> attempt_loop tr maxA attempt lastError bc w =
     (Inl (case lastError of Some e \<Rightarrow> transformError bc e | None \<Rightarrow> TypeError), bc, w)"
  by (simp add: attempt_loop.simps [of tr maxA attempt])

lemma increment_fields [simp]:
  "retryConfig (incrementCircuitBreakerFailure t bc) = retryConfig bc"
  "serviceName (incrementCircuitBreakerFailure t bc) = serviceName bc"
  "failures (circuitBreaker (incrementCircuitBreakerFailure t bc)) = Suc (failures (circuitBreaker bc))"
  "lastFailureTime (circuitBreaker (incrementCircuitBreakerFailure t bc)) = t"
  "state (circuitBreaker (incrementCircuitBreakerFailure t bc)) =
     (if 4 \<le> failures (circuitBreaker bc) then OPEN else state (circuitBreaker bc))"
  by (auto simp: incrementCircuitBreakerFailure_def Let_def)

text \<open>A run of retryable failures from attempt number \<open>attempt\<close> to the last attempt.\<close>

lemma attempt_loop_all_fail:
  assumes "\<forall>k. k < Suc maxA - attempt \<longrightarrow> retryable_at tr (sent w + k)"
    and "attempt_loop tr maxA attempt lastError bc w = (r, bc', w')"
  shows "isl r \<and> sent w' = sent w + (Suc maxA - attempt)
       \<and> slept w' = slept w @ map (\<lambda>k. delayMs (retryConfig bc) * backoffMultiplier (retryConfig bc) ^ (k - 1)) [attempt..<maxA]
       \<and> retryConfig bc' = retryConfig bc
       \<and> failures (circuitBreaker bc') = failures (circuitBreaker bc) + (Suc maxA - attempt)
       \<and> (attempt \<le> maxA \<longrightarrow> lastFailureTime (circuitBreaker bc') = clock w'
             \<and> state (circuitBreaker bc') = (if 5 \<le> failures (circuitBreaker bc') then OPEN else state (circuitBreaker bc)))"
  using assms
proof (induction tr maxA attempt lastError bc w arbitrary: r bc' w' rule: attempt_loop.induct)
  case (1 tr maxA attempt lastError bc w)
  show ?case
  proof (cases "attempt \<le> maxA")
    case False
    with "1.prems"(2) have "isl r" "bc' = bc" "w' = w"
      by (auto simp: attempt_loop_exhausted)
    with False show ?thesis by simp
  next
    case le: True
    from le have "0 < Suc maxA - attempt" by arith
    with "1.prems"(1) [rule_format, of 0] have r0: "retryable_at tr (sent w)" by simp
    then obtain e where e: "snd (tr (sent w)) = Inl e" "\<not> is_client_error e"
      using retryable_atD by blast
    define w1 where "w1 = w\<lparr> clock := clock w + int (fst (tr (sent w))), sent := Suc (sent w) \<rparr>"
    define bc1 where "bc1 = incrementCircuitBreakerFailure (clock w1) bc"
    define w2 where "w2 = observe bc1 w1"
    define w3 where "w3 = (if attempt < maxA
                      then sleep (delayMs (retryConfig bc)
                             * backoffMultiplier (retryConfig bc) ^ (attempt - 1)) w2
                      else w2)"
    have rec: "attempt_loop tr maxA (Suc attempt) (Some e) bc1 w3 = (r, bc', w')"
      using attempt_loop_retry [OF le r0, of lastError bc] "1.prems"(2) e
      by (simp add: Let_def w1_def bc1_def w2_def w3_def)
    have s3: "sent w3 = Suc (sent w)"
      by (simp add: w3_def w2_def w1_def observe_def sleep_def)
    have rest: "\<forall>k. k < Suc maxA - Suc attempt \<longrightarrow> retryable_at tr (sent w3 + k)"
    proof (intro allI impI)
      fix k assume "k < Suc maxA - Suc attempt"
      then have "Suc k < Suc maxA - attempt" by arith
      with "1.prems"(1) have "retryable_at tr (sent w + Suc k)" by blast
      then show "retryable_at tr (sent w3 + k)" by (simp add: s3)
    qed
    note IH = "1.IH" [OF le w1_def e(1) e(2) bc1_def w2_def w3_def rest rec]
    have sl3: "slept w3 = slept w @ (if attempt < maxA then [delayMs (retryConfig bc) * backoffMultiplier (retryConfig bc) ^ (attempt - 1)] else [])"
      by (simp add: w3_def w2_def w1_def observe_def sleep_def)
    have rc1: "retryConfig bc1 = retryConfig bc" by (simp add: bc1_def)
    have f1: "failures (circuitBreaker bc1) = Suc (failures (circuitBreaker bc))" by (simp add: bc1_def)
    have st1: "state (circuitBreaker bc1) = (if 5 \<le> failures (circuitBreaker bc) + 1 then OPEN else state (circuitBreaker bc))"
      by (simp add: bc1_def)
    have up: "[attempt..<maxA] = (if attempt < maxA then attempt # [Suc attempt..<maxA] else [])"
      by (simp add: upt_rec)
    have n: "Suc maxA - attempt = Suc (Suc maxA - Suc attempt)" using le by arith
    have c1: "isl r" using IH by simp
    have c2: "sent w' = sent w + (Suc maxA - attempt)" using IH s3 le by simp
    have c3: "slept w' = slept w @ map (\<lambda>k. delayMs (retryConfig bc) * backoffMultiplier (retryConfig bc) ^ (k - 1)) [attempt..<maxA]"
      using IH sl3 rc1 up by simp
    have c4: "retryConfig bc' = retryConfig bc" using IH rc1 by simp
    have c5: "failures (circuitBreaker bc') = failures (circuitBreaker bc) + (Suc maxA - attempt)"
      using IH f1 le by simp
    have c7: "lastFailureTime (circuitBreaker bc') = clock w'
             \<and> state (circuitBreaker bc') = (if 5 \<le> failures (circuitBreaker bc') then OPEN else state (circuitBreaker bc))"
    proof (cases "Suc attempt \<le> maxA")
      case True
      with IH show ?thesis using st1 f1 by (auto split: if_splits)
    next
      case False
      with rec have "bc' = bc1" "w' = w3" by (auto simp: attempt_loop_exhausted)
      moreover have "w3 = w2" using False by (simp add: w3_def)
      ultimately show ?thesis
        by (simp add: bc1_def w2_def observe_def)
    qed
    from c1 c2 c3 c4 c5 c7 show ?thesis by blast
  qed
qed

text \<open>
  C6. A request that fails with a client-side response (status 400 to 499) on any attempt ends the
  call at once with the transformed error: the client, and so the failure counter and the state
  of its circuit breaker, is returned as it was before the attempt, and the world records one
  more transport attempt, the time the attempt took, and no sleep.
\<close>

theorem client_error_propagates_immediately:
  assumes "attempt \<le> maxA"
    and "snd (tr (sent w)) = Inl (AxiosError m (Some s) dm dc u)"
    and "400 \<le> s" and "s < 500"
  shows "attempt_loop tr maxA attempt lastError bc w =
           (Inl (transformError bc (AxiosError m (Some s) dm dc u)), bc,
            w\<lparr> clock := clock w + int (fst (tr (sent w))), sent := Suc (sent w) \<rparr>)"
  using assms by (intro attempt_loop_client_error) simp_all

theorem client_error_propagates_immediately_witness:
  "attempt_loop always_not_found 3 2 None graphRAG_client (net0 0) =
     (Inl (RoboticsError ''GraphRAG: Request failed with status code 404'' ''SERVICE_ERROR'' 404
             (ServiceDetails ''GraphRAG'' ''Request failed with status code 404'' None)),
      graphRAG_client, \<lparr> clock = 0, sent = 1, slept = [], observed = [] \<rparr>)"
  using client_error_propagates_immediately
    [of 2 3 always_not_found "net0 0" "''Request failed with status code 404''" 404 None None None
        None graphRAG_client]
  by (simp add: always_not_found_def net0_def graphRAG_client_def new_client_def or_string_def
      or_nat_def)

text \<open>
  C7. On a call that the breaker lets through and whose attempts all fail with retryable
  failures, a client with \<open>maxAttempts = 3\<close>, delay 1000 ms and multiplier 2 sleeps exactly
  1000 ms and then 2000 ms. In general the delay after attempt \<open>k\<close> is
  \<open>delayMs * backoffMultiplier ^ (k - 1)\<close> for each \<open>k\<close> below \<open>maxAttempts\<close>, and nothing is
  slept after the last attempt.
\<close>

theorem retry_delay_sequence:
  assumes "state (circuitBreaker bc) = OPEN \<longrightarrow> 30000 \<le> clock w - lastFailureTime (circuitBreaker bc)"
    and "\<forall>k. k < maxAttempts (retryConfig bc) \<longrightarrow> retryable_at tr (sent w + k)"
  shows "(retryConfig bc = \<lparr> maxAttempts = 3, delayMs = 1000, backoffMultiplier = 2 \<rparr>
            \<longrightarrow> slept (snd (snd (post tr bc w))) = slept w @ [1000, 2000])
       \<and> slept (snd (snd (post tr bc w))) =
           slept w @ map (\<lambda>k. delayMs (retryConfig bc) * backoffMultiplier (retryConfig bc) ^ (k - 1))
                       [1..<maxAttempts (retryConfig bc)]
       \<and> sent (snd (snd (post tr bc w))) = sent w + maxAttempts (retryConfig bc)"
proof -
  define bc1 where "bc1 = (if state (circuitBreaker bc) = OPEN
      then bc\<lparr> circuitBreaker := (circuitBreaker bc)\<lparr> state := HALF_OPEN \<rparr> \<rparr> else bc)"
  define w1 where "w1 = (if state (circuitBreaker bc) = OPEN then observe bc1 w else w)"
  define n where "n = maxAttempts (retryConfig bc)"
  have p: "post tr bc w = attempt_loop tr n 1 None bc1 w1"
  proof (cases "state (circuitBreaker bc) = OPEN")
    case True
    with assms(1) have "\<not> clock w - lastFailureTime (circuitBreaker bc) < 30000" by simp
    with True show ?thesis
      by (simp add: post_def executeWithRetry_def bc1_def w1_def n_def Let_def attempts_of_def)
  next
    case False
    then show ?thesis
      by (simp add: post_def executeWithRetry_def bc1_def w1_def n_def Let_def attempts_of_def)
  qed
  have rc: "retryConfig bc1 = retryConfig bc" by (simp add: bc1_def)
  have w1: "sent w1 = sent w" "slept w1 = slept w" by (simp_all add: w1_def observe_def)
  obtain r bc' w' where run: "attempt_loop tr n 1 None bc1 w1 = (r, bc', w')"
    by (metis prod_cases3)
  have "\<forall>k. k < Suc n - 1 \<longrightarrow> retryable_at tr (sent w1 + k)"
    using assms(2) by (simp add: n_def w1)
  from attempt_loop_all_fail [OF this run]
  have gen: "slept w' = slept w @ map (\<lambda>k. delayMs (retryConfig bc) * backoffMultiplier (retryConfig bc) ^ (k - 1)) [1..<n]"
    and snt: "sent w' = sent w + n"
    by (simp_all add: rc w1)
  have res: "snd (snd (post tr bc w)) = w'" unfolding p run by simp
  have upt3: "[1..<3] = [1, 2::nat]" by (simp add: upt_rec)
  have dflt: "slept w' = slept w @ [1000, 2000]"
    if "retryConfig bc = \<lparr> maxAttempts = 3, delayMs = 1000, backoffMultiplier = 2 \<rparr>"
  proof -
    from that have "n = 3" "delayMs (retryConfig bc) = 1000" "backoffMultiplier (retryConfig bc) = 2"
      by (simp_all add: n_def)
    with gen upt3 show ?thesis by simp
  qed
  show ?thesis
    unfolding res using gen snt dflt by (simp add: n_def)
qed

theorem retry_delay_sequence_witness:
  "slept (snd (snd (post always_timeout graphRAG_client (net0 0)))) = [1000, 2000]
   \<and> sent (snd (snd (post always_timeout graphRAG_client (net0 0)))) = 3"
proof -
  have a: "state (circuitBreaker graphRAG_client) = OPEN
      \<longrightarrow> 30000 \<le> clock (net0 0) - lastFailureTime (circuitBreaker graphRAG_client)"
    by (simp add: graphRAG_client_def new_client_def)
  have b: "\<forall>k. k < maxAttempts (retryConfig graphRAG_client) \<longrightarrow> retryable_at always_timeout (sent (net0 0) + k)"
    by (simp add: retryable_at_def always_timeout_def)
  have c: "retryConfig graphRAG_client = \<lparr> maxAttempts = 3, delayMs = 1000, backoffMultiplier = 2 \<rparr>"
    by (simp add: graphRAG_client_def new_client_def MAX_RETRY_ATTEMPTS_def RETRY_DELAY_MS_def
        RETRY_BACKOFF_MULTIPLIER_def)
  from retry_delay_sequence [OF a b] c show ?thesis
    by (simp add: net0_def)
qed

text \<open>
  C2 (amended). Along any sequence of calls on a client fresh from its constructor, whatever the
  transport answers and however much time passes between calls, each change of the breaker
  state is CLOSED to OPEN, OPEN to HALF_OPEN, HALF_OPEN to CLOSED, HALF_OPEN to OPEN, or
  OPEN to CLOSED; CLOSED never changes to HALF_OPEN.
\<close>

theorem breaker_transitions:
  "successively breaker_step
     (CLOSED # observed (snd (run_calls tr calls (new_client name optA optD optB) (net0 t))))"
proof -
  obtain bc' w' where run: "run_calls tr calls (new_client name optA optD optB) (net0 t) = (bc', w')"
    by (cases "run_calls tr calls (new_client name optA optD optB) (net0 t)")
  have s0: "state (circuitBreaker (new_client name optA optD optB)) = CLOSED"
    "observed (net0 t) = []"
    by (simp_all add: new_client_def net0_def)
  from run_calls_trace [OF run] obtain xs where
    "observed w' = observed (net0 t) @ xs"
    "successively breaker_step (state (circuitBreaker (new_client name optA optD optB)) # xs)"
    by blast
  then show ?thesis
    by (simp add: run s0)
qed

text \<open>
  With the default three attempts the fifth consecutive failure is the second attempt of the
  second call; the third attempt is still made, and its fulfilled response takes the breaker
  from OPEN straight to CLOSED.
\<close>

theorem breaker_transitions_counterexample:
  "observed (snd (run_calls five_timeouts_then_ok [(0, None), (0, None)] graphRAG_client (net0 0)))
     = [CLOSED, CLOSED, CLOSED, CLOSED, OPEN, CLOSED]
   \<and> \<not> successively spec_breaker_step
        (CLOSED # observed (snd (run_calls five_timeouts_then_ok [(0, None), (0, None)]
                                   graphRAG_client (net0 0))))"
  by code_simp

lemma executeWithRetry_blocked:
  assumes "state (circuitBreaker bc) = OPEN"
    and "clock w - lastFailureTime (circuitBreaker bc) < 30000"
  shows "executeWithRetry tr retries bc w = (Inl (breaker_open_error bc), bc, w)"
  using assms by (simp add: executeWithRetry_def)

lemma executeWithRetry_half_open:
  assumes "state (circuitBreaker bc) = OPEN"
    and "30000 \<le> clock w - lastFailureTime (circuitBreaker bc)"
  shows "executeWithRetry tr retries bc w =
     attempt_loop tr (attempts_of retries bc) 1 None
       (bc\<lparr> circuitBreaker := (circuitBreaker bc)\<lparr> state := HALF_OPEN \<rparr> \<rparr>)
       (w\<lparr> observed := observed w @ [HALF_OPEN] \<rparr>)"
proof -
  from assms(2) have "\<not> clock w - lastFailureTime (circuitBreaker bc) < 30000" by simp
  with assms(1) show ?thesis
    by (simp add: executeWithRetry_def Let_def observe_def)
qed

lemma executeWithRetry_through:
  assumes "state (circuitBreaker bc) \<noteq> OPEN"
  shows "executeWithRetry tr retries bc w =
     attempt_loop tr (attempts_of retries bc) 1 None bc w"
  using assms by (simp add: executeWithRetry_def Let_def)


lemma open_blocked:
  "state (circuitBreaker bc) = OPEN \<and> clock w - lastFailureTime (circuitBreaker bc) < 30000
      \<longrightarrow> executeWithRetry tr retries bc w = (Inl (breaker_open_error bc), bc, w)"
  by (simp add: executeWithRetry_blocked)

lemma half_open_success:
  "state (circuitBreaker bc) = OPEN \<and> 30000 \<le> clock w - lastFailureTime (circuitBreaker bc)
        \<and> 1 \<le> attempts_of retries bc \<and> snd (tr (sent w)) = Inr v
      \<longrightarrow> executeWithRetry tr retries bc w =
            (Inr v,
             bc\<lparr> circuitBreaker := (circuitBreaker bc)\<lparr> failures := 0, state := CLOSED \<rparr> \<rparr>,
             w\<lparr> clock := clock w + int (fst (tr (sent w))), sent := Suc (sent w),
                observed := observed w @ [HALF_OPEN, CLOSED] \<rparr>)"
proof
  assume a: "state (circuitBreaker bc) = OPEN \<and> 30000 \<le> clock w - lastFailureTime (circuitBreaker bc)
        \<and> 1 \<le> attempts_of retries bc \<and> snd (tr (sent w)) = Inr v"
  then have "executeWithRetry tr retries bc w =
     attempt_loop tr (attempts_of retries bc) 1 None
       (bc\<lparr> circuitBreaker := (circuitBreaker bc)\<lparr> state := HALF_OPEN \<rparr> \<rparr>)
       (w\<lparr> observed := observed w @ [HALF_OPEN] \<rparr>)"
    by (intro executeWithRetry_half_open) simp_all
  also have "\<dots> = (Inr v,
             bc\<lparr> circuitBreaker := (circuitBreaker bc)\<lparr> failures := 0, state := CLOSED \<rparr> \<rparr>,
             w\<lparr> clock := clock w + int (fst (tr (sent w))), sent := Suc (sent w),
                observed := observed w @ [HALF_OPEN, CLOSED] \<rparr>)"
    using a by (subst attempt_loop_success [where v = v])
      (simp_all add: resetCircuitBreaker_def observe_def)
  finally show "executeWithRetry tr retries bc w =
            (Inr v,
             bc\<lparr> circuitBreaker := (circuitBreaker bc)\<lparr> failures := 0, state := CLOSED \<rparr> \<rparr>,
             w\<lparr> clock := clock w + int (fst (tr (sent w))), sent := Suc (sent w),
                observed := observed w @ [HALF_OPEN, CLOSED] \<rparr>)" .
qed

lemma closed_failures:
  "state (circuitBreaker bc) = CLOSED \<and> 1 \<le> attempts_of retries bc
        \<and> (\<forall>k. k < attempts_of retries bc \<longrightarrow> retryable_at tr (sent w + k))
      \<longrightarrow> state (circuitBreaker (fst (snd (executeWithRetry tr retries bc w))))
            = (if 5 \<le> failures (circuitBreaker bc) + attempts_of retries bc then OPEN else CLOSED)
          \<and> sent (snd (snd (executeWithRetry tr retries bc w))) = sent w + attempts_of retries bc"
proof
  assume a: "state (circuitBreaker bc) = CLOSED \<and> 1 \<le> attempts_of retries bc
        \<and> (\<forall>k. k < attempts_of retries bc \<longrightarrow> retryable_at tr (sent w + k))"
  then have e: "executeWithRetry tr retries bc w = attempt_loop tr (attempts_of retries bc) 1 None bc w"
    by (intro executeWithRetry_through) simp
  obtain r bc' w' where run: "attempt_loop tr (attempts_of retries bc) 1 None bc w = (r, bc', w')"
    by (metis prod_cases3)
  have "\<forall>k. k < Suc (attempts_of retries bc) - 1 \<longrightarrow> retryable_at tr (sent w + k)"
    using a by simp
  from attempt_loop_all_fail [OF this run] a
  have "sent w' = sent w + attempts_of retries bc"
    "state (circuitBreaker bc') = (if 5 \<le> failures (circuitBreaker bc) + attempts_of retries bc then OPEN else CLOSED)"
    by simp_all
  then show "state (circuitBreaker (fst (snd (executeWithRetry tr retries bc w))))
            = (if 5 \<le> failures (circuitBreaker bc) + attempts_of retries bc then OPEN else CLOSED)
          \<and> sent (snd (snd (executeWithRetry tr retries bc w))) = sent w + attempts_of retries bc"
    unfolding e run by simp
qed

text \<open>Retryable failures on the first \<open>j\<close> attempts, then a fulfilled one.\<close>

lemma attempt_loop_fail_then_ok:
  assumes "\<forall>k. k < j \<longrightarrow> retryable_at tr (sent w + k)"
    and "snd (tr (sent w + j)) = Inr v"
    and "attempt + j \<le> maxA"
  shows "fst (attempt_loop tr maxA attempt lastError bc w) = Inr v
       \<and> failures (circuitBreaker (fst (snd (attempt_loop tr maxA attempt lastError bc w)))) = 0
       \<and> state (circuitBreaker (fst (snd (attempt_loop tr maxA attempt lastError bc w)))) = CLOSED
       \<and> sent (snd (snd (attempt_loop tr maxA attempt lastError bc w))) = sent w + j + 1"
  using assms
proof (induction j arbitrary: attempt lastError bc w)
  case 0
  then have "attempt \<le> maxA" "snd (tr (sent w)) = Inr v" by simp_all
  from attempt_loop_success [where tr = tr and w = w and v = v and attempt = attempt
      and maxA = maxA and lastError = lastError and bc = bc, OF this] show ?case
    by (simp add: resetCircuitBreaker_def observe_def)
next
  case (Suc j)
  have le: "attempt \<le> maxA" using Suc.prems(3) by simp
  have r0: "retryable_at tr (sent w)" using Suc.prems(1) [rule_format, of 0] by simp
  define w1 where "w1 = w\<lparr> clock := clock w + int (fst (tr (sent w))), sent := Suc (sent w) \<rparr>"
  define bc1 where "bc1 = incrementCircuitBreakerFailure (clock w1) bc"
  define w3 where "w3 = (if attempt < maxA
                then sleep (delayMs (retryConfig bc)
                       * backoffMultiplier (retryConfig bc) ^ (attempt - 1)) (observe bc1 w1)
                else observe bc1 w1)"
  have step: "attempt_loop tr maxA attempt lastError bc w
      = attempt_loop tr maxA (Suc attempt) (Some (projl (snd (tr (sent w))))) bc1 w3"
    using attempt_loop_retry [OF le r0, of lastError bc]
    by (simp add: Let_def w1_def bc1_def w3_def)
  have s3: "sent w3 = Suc (sent w)"
    by (simp add: w3_def w1_def observe_def sleep_def)
  have a: "\<forall>k. k < j \<longrightarrow> retryable_at tr (sent w3 + k)"
  proof (intro allI impI)
    fix k assume "k < j"
    then have "Suc k < Suc j" by simp
    with Suc.prems(1) have "retryable_at tr (sent w + Suc k)" by blast
    then show "retryable_at tr (sent w3 + k)" by (simp add: s3)
  qed
  have b: "snd (tr (sent w3 + j)) = Inr v" using Suc.prems(2) by (simp add: s3)
  have c: "Suc attempt + j \<le> maxA" using Suc.prems(3) by simp
  from Suc.IH [OF a b c, of "Some (projl (snd (tr (sent w))))" bc1] show ?case
    unfolding step by (simp add: s3)
qed

text \<open>Every call keeps the breaker consistent, so every client reached from the constructor is.\<close>

lemma consistent_new [simp]: "breaker_consistent (new_client name a d b)"
  by (simp add: breaker_consistent_def new_client_def)

lemma consistent_reset [simp]: "breaker_consistent (resetCircuitBreaker bc)"
  by (simp add: breaker_consistent_def resetCircuitBreaker_def)

lemma consistent_increment:
  "breaker_consistent bc \<Longrightarrow> breaker_consistent (incrementCircuitBreakerFailure t bc)"
  by (auto simp: breaker_consistent_def)

lemma consistent_half_open:
  "breaker_consistent bc \<Longrightarrow> state (circuitBreaker bc) = OPEN \<Longrightarrow>
     breaker_consistent (bc\<lparr> circuitBreaker := (circuitBreaker bc)\<lparr> state := HALF_OPEN \<rparr> \<rparr>)"
  by (auto simp: breaker_consistent_def)

lemma attempt_loop_consistent:
  "breaker_consistent bc \<Longrightarrow>
     breaker_consistent (fst (snd (attempt_loop tr maxA attempt lastError bc w)))"
proof (induction tr maxA attempt lastError bc w rule: attempt_loop.induct)
  case (1 tr maxA attempt lastError bc w)
  show ?case
  proof (cases "attempt \<le> maxA")
    case False
    with "1.prems" show ?thesis by (simp add: attempt_loop_exhausted)
  next
    case le: True
    show ?thesis
    proof (cases "snd (tr (sent w))")
      case (Inr v)
      with le show ?thesis by (simp add: attempt_loop_success)
    next
      case (Inl e)
      show ?thesis
      proof (cases "is_client_error e")
        case True
        with le Inl "1.prems" show ?thesis by (simp add: attempt_loop_client_error)
      next
        case False
        define w1 where "w1 = w\<lparr> clock := clock w + int (fst (tr (sent w))), sent := Suc (sent w) \<rparr>"
        define bc1 where "bc1 = incrementCircuitBreakerFailure (clock w1) bc"
        define w2 where "w2 = observe bc1 w1"
        define w3 where "w3 = (if attempt < maxA
                          then sleep (delayMs (retryConfig bc)
                                 * backoffMultiplier (retryConfig bc) ^ (attempt - 1)) w2
                          else w2)"
        have step: "attempt_loop tr maxA attempt lastError bc w = attempt_loop tr maxA (Suc attempt) (Some e) bc1 w3"
          using le Inl False
          by (simp add: attempt_loop.simps [of tr maxA attempt] Let_def w1_def bc1_def w2_def w3_def)
        have "breaker_consistent bc1" unfolding bc1_def using "1.prems" by (rule consistent_increment)
        from "1.IH" [OF le w1_def Inl False bc1_def w2_def w3_def this] show ?thesis
          unfolding step .
      qed
    qed
  qed
qed

lemma executeWithRetry_consistent:
  assumes "breaker_consistent bc"
  shows "breaker_consistent (fst (snd (executeWithRetry tr retries bc w)))"
proof (cases "state (circuitBreaker bc) = OPEN")
  case True
  show ?thesis
  proof (cases "clock w - lastFailureTime (circuitBreaker bc) < 30000")
    case True
    with \<open>state (circuitBreaker bc) = OPEN\<close> assms show ?thesis
      by (simp add: executeWithRetry_blocked)
  next
    case False
    then have late: "30000 \<le> clock w - lastFailureTime (circuitBreaker bc)" by simp
    have e: "executeWithRetry tr retries bc w
        = attempt_loop tr (attempts_of retries bc) 1 None
            (bc\<lparr> circuitBreaker := (circuitBreaker bc)\<lparr> state := HALF_OPEN \<rparr> \<rparr>)
            (w\<lparr> observed := observed w @ [HALF_OPEN] \<rparr>)"
      using True late by (rule executeWithRetry_half_open)
    show ?thesis unfolding e
      by (rule attempt_loop_consistent [OF consistent_half_open [OF assms True]])
  qed
next
  case False
  have e: "executeWithRetry tr retries bc w = attempt_loop tr (attempts_of retries bc) 1 None bc w"
    using False by (rule executeWithRetry_through)
  show ?thesis unfolding e using assms by (rule attempt_loop_consistent)
qed

lemma run_calls_consistent:
  "breaker_consistent bc \<Longrightarrow> breaker_consistent (fst (run_calls tr calls bc w))"
proof (induction calls arbitrary: bc w)
  case Nil
  then show ?case by simp
next
  case (Cons c calls)
  obtain gap retries where c: "c = (gap, retries)" by (cases c)
  obtain r bc1 w1 where call: "executeWithRetry tr retries bc (w\<lparr> clock := clock w + int gap \<rparr>) = (r, bc1, w1)"
    by (metis prod_cases3)
  have "breaker_consistent bc1"
    using executeWithRetry_consistent [OF Cons.prems, of tr retries "w\<lparr> clock := clock w + int gap \<rparr>"]
    by (simp add: call)
  from Cons.IH [OF this, of w1] show ?case by (simp add: c call)
qed

lemma open_elapsed:
  "state (circuitBreaker bc) = OPEN \<and> 30000 \<le> clock w - lastFailureTime (circuitBreaker bc)
      \<longrightarrow> executeWithRetry tr retries bc w =
            attempt_loop tr (attempts_of retries bc) 1 None
              (bc\<lparr> circuitBreaker := (circuitBreaker bc)\<lparr> state := HALF_OPEN \<rparr> \<rparr>)
              (w\<lparr> observed := observed w @ [HALF_OPEN] \<rparr>)"
  using executeWithRetry_half_open [of bc w tr retries] by blast

lemma not_open_through:
  "state (circuitBreaker bc) \<noteq> OPEN
      \<longrightarrow> executeWithRetry tr retries bc w = attempt_loop tr (attempts_of retries bc) 1 None bc w"
  using executeWithRetry_through [of bc tr retries w] by blast

lemma any_attempt_fulfilled:
  "(state (circuitBreaker bc) \<noteq> OPEN \<or> 30000 \<le> clock w - lastFailureTime (circuitBreaker bc))
        \<and> j < attempts_of retries bc
        \<and> (\<forall>k. k < j \<longrightarrow> retryable_at tr (sent w + k))
        \<and> snd (tr (sent w + j)) = Inr v
      \<longrightarrow> fst (executeWithRetry tr retries bc w) = Inr v
          \<and> failures (circuitBreaker (fst (snd (executeWithRetry tr retries bc w)))) = 0
          \<and> state (circuitBreaker (fst (snd (executeWithRetry tr retries bc w)))) = CLOSED
          \<and> sent (snd (snd (executeWithRetry tr retries bc w))) = sent w + j + 1"
proof
  assume a: "(state (circuitBreaker bc) \<noteq> OPEN \<or> 30000 \<le> clock w - lastFailureTime (circuitBreaker bc))
        \<and> j < attempts_of retries bc
        \<and> (\<forall>k. k < j \<longrightarrow> retryable_at tr (sent w + k))
        \<and> snd (tr (sent w + j)) = Inr v"
  then have le: "1 + j \<le> attempts_of retries bc" by simp
  show "fst (executeWithRetry tr retries bc w) = Inr v
          \<and> failures (circuitBreaker (fst (snd (executeWithRetry tr retries bc w)))) = 0
          \<and> state (circuitBreaker (fst (snd (executeWithRetry tr retries bc w)))) = CLOSED
          \<and> sent (snd (snd (executeWithRetry tr retries bc w))) = sent w + j + 1"
  proof (cases "state (circuitBreaker bc) = OPEN")
    case True
    with a have late: "30000 \<le> clock w - lastFailureTime (circuitBreaker bc)" by blast
    define w1 where "w1 = w\<lparr> observed := observed w @ [HALF_OPEN] \<rparr>"
    have e: "executeWithRetry tr retries bc w
        = attempt_loop tr (attempts_of retries bc) 1 None
            (bc\<lparr> circuitBreaker := (circuitBreaker bc)\<lparr> state := HALF_OPEN \<rparr> \<rparr>) w1"
      unfolding w1_def using True late by (rule executeWithRetry_half_open)
    have s: "sent w1 = sent w" by (simp add: w1_def)
    have r: "\<forall>k. k < j \<longrightarrow> retryable_at tr (sent w1 + k)" using a by (simp add: s)
    have v: "snd (tr (sent w1 + j)) = Inr v" using a by (simp add: s)
    from attempt_loop_fail_then_ok [OF r v le] show ?thesis unfolding e by (simp add: s)
  next
    case False
    have e: "executeWithRetry tr retries bc w = attempt_loop tr (attempts_of retries bc) 1 None bc w"
      using False by (rule executeWithRetry_through)
    have r: "\<forall>k. k < j \<longrightarrow> retryable_at tr (sent w + k)" using a by simp
    have v: "snd (tr (sent w + j)) = Inr v" using a by simp
    from attempt_loop_fail_then_ok [OF r v le] show ?thesis unfolding e by simp
  qed
qed

lemma let_through_all_fail:
  "bc = fst (run_calls tr0 calls (new_client name optA optD optB) w0)
        \<and> (state (circuitBreaker bc) = HALF_OPEN
            \<or> state (circuitBreaker bc) = OPEN
              \<and> 30000 \<le> clock w - lastFailureTime (circuitBreaker bc))
        \<and> 1 \<le> attempts_of retries bc
        \<and> (\<forall>k. k < attempts_of retries bc \<longrightarrow> retryable_at tr (sent w + k))
      \<longrightarrow> isl (fst (executeWithRetry tr retries bc w))
          \<and> state (circuitBreaker (fst (snd (executeWithRetry tr retries bc w)))) = OPEN
          \<and> lastFailureTime (circuitBreaker (fst (snd (executeWithRetry tr retries bc w))))
              = clock (snd (snd (executeWithRetry tr retries bc w)))
          \<and> failures (circuitBreaker (fst (snd (executeWithRetry tr retries bc w))))
              = failures (circuitBreaker bc) + attempts_of retries bc
          \<and> sent (snd (snd (executeWithRetry tr retries bc w))) = sent w + attempts_of retries bc"
proof
  assume a: "bc = fst (run_calls tr0 calls (new_client name optA optD optB) w0)
        \<and> (state (circuitBreaker bc) = HALF_OPEN
            \<or> state (circuitBreaker bc) = OPEN
              \<and> 30000 \<le> clock w - lastFailureTime (circuitBreaker bc))
        \<and> 1 \<le> attempts_of retries bc
        \<and> (\<forall>k. k < attempts_of retries bc \<longrightarrow> retryable_at tr (sent w + k))"
  then have "breaker_consistent bc"
    using run_calls_consistent [OF consistent_new, of tr0 calls name optA optD optB w0] by simp
  with a have five: "5 \<le> failures (circuitBreaker bc)"
    by (auto simp: breaker_consistent_def)
  define bc1 where "bc1 = (if state (circuitBreaker bc) = OPEN
      then bc\<lparr> circuitBreaker := (circuitBreaker bc)\<lparr> state := HALF_OPEN \<rparr> \<rparr> else bc)"
  define w1 where "w1 = (if state (circuitBreaker bc) = OPEN
      then w\<lparr> observed := observed w @ [HALF_OPEN] \<rparr> else w)"
  have e: "executeWithRetry tr retries bc w = attempt_loop tr (attempts_of retries bc) 1 None bc1 w1"
  proof (cases "state (circuitBreaker bc) = OPEN")
    case True
    with a have late: "30000 \<le> clock w - lastFailureTime (circuitBreaker bc)" by auto
    show ?thesis using executeWithRetry_half_open [OF True late, of tr retries] True
      by (simp add: bc1_def w1_def)
  next
    case False
    show ?thesis using executeWithRetry_through [OF False, of tr retries w] False
      by (simp add: bc1_def w1_def)
  qed
  obtain r bc' w' where run: "attempt_loop tr (attempts_of retries bc) 1 None bc1 w1 = (r, bc', w')"
    by (metis prod_cases3)
  have s: "sent w1 = sent w" by (simp add: w1_def)
  have f: "failures (circuitBreaker bc1) = failures (circuitBreaker bc)" by (simp add: bc1_def)
  have "\<forall>k. k < Suc (attempts_of retries bc) - 1 \<longrightarrow> retryable_at tr (sent w1 + k)"
    using a by (simp add: s)
  note fail = attempt_loop_all_fail [OF this run]
  have one: "1 \<le> attempts_of retries bc" using a by blast
  have c1: "isl r" using fail by simp
  have c2: "sent w' = sent w + attempts_of retries bc" using fail by (simp add: s)
  have c3: "failures (circuitBreaker bc') = failures (circuitBreaker bc) + attempts_of retries bc"
    using fail by (simp add: f)
  have c4: "lastFailureTime (circuitBreaker bc') = clock w'" using fail one by simp
  have "5 \<le> failures (circuitBreaker bc')" using c3 five by simp
  then have c5: "state (circuitBreaker bc') = OPEN" using fail one by simp
  note c1 c2 c4 c5 c3
  then show "isl (fst (executeWithRetry tr retries bc w))
          \<and> state (circuitBreaker (fst (snd (executeWithRetry tr retries bc w)))) = OPEN
          \<and> lastFailureTime (circuitBreaker (fst (snd (executeWithRetry tr retries bc w))))
              = clock (snd (snd (executeWithRetry tr retries bc w)))
          \<and> failures (circuitBreaker (fst (snd (executeWithRetry tr retries bc w))))
              = failures (circuitBreaker bc) + attempts_of retries bc
          \<and> sent (snd (snd (executeWithRetry tr retries bc w))) = sent w + attempts_of retries bc"
    unfolding e run by simp
qed

lemma two_calls_run:
  "run_calls five_timeouts_then_ok [(0, None), (0, None)] graphRAG_client (net0 0) =
     (graphRAG_client\<lparr> circuitBreaker := \<lparr> failures = 0, lastFailureTime = 4000, state = CLOSED \<rparr> \<rparr>,
      \<lparr> clock = 6000, sent = 6, slept = [1000, 2000, 1000, 2000],
        observed = [CLOSED, CLOSED, CLOSED, CLOSED, OPEN, CLOSED] \<rparr>)"
  by code_simp


lemma opened_run:
  "run_calls six_timeouts_then_not_found [(0, None), (0, None)] graphRAG_client (net0 0) =
     (opened_client,
      \<lparr> clock = 6000, sent = 6, slept = [1000, 2000, 1000, 2000],
        observed = [CLOSED, CLOSED, CLOSED, CLOSED, OPEN, OPEN] \<rparr>)"
  by code_simp

lemma probing_run:
  "run_calls six_timeouts_then_not_found [(0, None), (0, None), (30000, None)] graphRAG_client
     (net0 0) =
     (probing_client,
      \<lparr> clock = 36000, sent = 7, slept = [1000, 2000, 1000, 2000],
        observed = [CLOSED, CLOSED, CLOSED, CLOSED, OPEN, OPEN, HALF_OPEN] \<rparr>)"
  by code_simp

text \<open>
  C5 (amended). While the breaker is OPEN, a call started less than 30000 ms after the last
  recorded failure fails at once with the breaker-open error, with no transport attempt, no
  sleep and no change to the client. A call started at OPEN 30000 ms or more after it sets
  HALF_OPEN and then runs the ordinary retry loop; a call started in any other state, CLOSED or
  HALF_OPEN, runs the ordinary retry loop directly, so HALF_OPEN does not limit the number of
  calls. A call that is let through and whose first attempt is fulfilled returns the response
  after that one attempt with the failure counter at 0 and the state CLOSED; more generally a
  call that is let through and has a fulfilled attempt, the first or one that follows retryable
  failures of the same call, returns the response and leaves the counter at 0 and the state
  CLOSED. On a client that calls have brought from its constructor to HALF_OPEN, or to OPEN with
  the 30000 ms elapsed, a call with at least one attempt whose attempts all fail with retryable
  failures makes every one of its attempts, raises, adds them to the counter and leaves the
  breaker OPEN with the time of the last failure as the start of the new window. From CLOSED, a
  call with at least one attempt whose attempts all fail with retryable failures makes all its
  attempts and leaves the breaker OPEN exactly when the counter has reached 5.
\<close>

theorem breaker_open_window:
  "(state (circuitBreaker bc) = OPEN \<and> clock w - lastFailureTime (circuitBreaker bc) < 30000
      \<longrightarrow> executeWithRetry tr retries bc w = (Inl (breaker_open_error bc), bc, w))
   \<and> (state (circuitBreaker bc) = OPEN \<and> 30000 \<le> clock w - lastFailureTime (circuitBreaker bc)
      \<longrightarrow> executeWithRetry tr retries bc w =
            attempt_loop tr (attempts_of retries bc) 1 None
              (bc\<lparr> circuitBreaker := (circuitBreaker bc)\<lparr> state := HALF_OPEN \<rparr> \<rparr>)
              (w\<lparr> observed := observed w @ [HALF_OPEN] \<rparr>))
   \<and> (state (circuitBreaker bc) \<noteq> OPEN
      \<longrightarrow> executeWithRetry tr retries bc w = attempt_loop tr (attempts_of retries bc) 1 None bc w)
   \<and> (state (circuitBreaker bc) = OPEN \<and> 30000 \<le> clock w - lastFailureTime (circuitBreaker bc)
        \<and> 1 \<le> attempts_of retries bc \<and> snd (tr (sent w)) = Inr v
      \<longrightarrow> executeWithRetry tr retries bc w =
            (Inr v,
             bc\<lparr> circuitBreaker := (circuitBreaker bc)\<lparr> failures := 0, state := CLOSED \<rparr> \<rparr>,
             w\<lparr> clock := clock w + int (fst (tr (sent w))), sent := Suc (sent w),
                observed := observed w @ [HALF_OPEN, CLOSED] \<rparr>))
   \<and> ((state (circuitBreaker bc) \<noteq> OPEN \<or> 30000 \<le> clock w - lastFailureTime (circuitBreaker bc))
        \<and> j < attempts_of retries bc
        \<and> (\<forall>k. k < j \<longrightarrow> retryable_at tr (sent w + k))
        \<and> snd (tr (sent w + j)) = Inr v
      \<longrightarrow> fst (executeWithRetry tr retries bc w) = Inr v
          \<and> failures (circuitBreaker (fst (snd (executeWithRetry tr retries bc w)))) = 0
          \<and> state (circuitBreaker (fst (snd (executeWithRetry tr retries bc w)))) = CLOSED
          \<and> sent (snd (snd (executeWithRetry tr retries bc w))) = sent w + j + 1)
   \<and> (bc = fst (run_calls tr0 calls (new_client name optA optD optB) w0)
        \<and> (state (circuitBreaker bc) = HALF_OPEN
            \<or> state (circuitBreaker bc) = OPEN
              \<and> 30000 \<le> clock w - lastFailureTime (circuitBreaker bc))
        \<and> 1 \<le> attempts_of retries bc
        \<and> (\<forall>k. k < attempts_of retries bc \<longrightarrow> retryable_at tr (sent w + k))
      \<longrightarrow> isl (fst (executeWithRetry tr retries bc w))
          \<and> state (circuitBreaker (fst (snd (executeWithRetry tr retries bc w)))) = OPEN
          \<and> lastFailureTime (circuitBreaker (fst (snd (executeWithRetry tr retries bc w))))
              = clock (snd (snd (executeWithRetry tr retries bc w)))
          \<and> failures (circuitBreaker (fst (snd (executeWithRetry tr retries bc w))))
              = failures (circuitBreaker bc) + attempts_of retries bc
          \<and> sent (snd (snd (executeWithRetry tr retries bc w))) = sent w + attempts_of retries bc)
   \<and> (state (circuitBreaker bc) = CLOSED \<and> 1 \<le> attempts_of retries bc
        \<and> (\<forall>k. k < attempts_of retries bc \<longrightarrow> retryable_at tr (sent w + k))
      \<longrightarrow> state (circuitBreaker (fst (snd (executeWithRetry tr retries bc w))))
            = (if 5 \<le> failures (circuitBreaker bc) + attempts_of retries bc then OPEN else CLOSED)
          \<and> sent (snd (snd (executeWithRetry tr retries bc w))) = sent w + attempts_of retries bc)"
  by (intro conjI open_blocked open_elapsed not_open_through half_open_success
      any_attempt_fulfilled let_through_all_fail closed_failures)

lemma opened_fields:
  "state (circuitBreaker opened_client) = OPEN"
  "lastFailureTime (circuitBreaker opened_client) = 6000"
  "failures (circuitBreaker opened_client) = 6"
  "attempts_of None opened_client = 3"
  by (simp_all add: opened_client_def graphRAG_client_def new_client_def attempts_of_def
      MAX_RETRY_ATTEMPTS_def)

lemma probing_fields:
  "state (circuitBreaker probing_client) = HALF_OPEN"
  "lastFailureTime (circuitBreaker probing_client) = 6000"
  "failures (circuitBreaker probing_client) = 6"
  "attempts_of None probing_client = 3"
  by (simp_all add: probing_client_def graphRAG_client_def new_client_def attempts_of_def
      MAX_RETRY_ATTEMPTS_def)

lemma tripped_fields:
  "state (circuitBreaker tripped_client) = OPEN"
  "lastFailureTime (circuitBreaker tripped_client) = 0"
  "failures (circuitBreaker tripped_client) = 5"
  "attempts_of None tripped_client = 3"
  by (simp_all add: tripped_client_def graphRAG_client_def new_client_def attempts_of_def
      MAX_RETRY_ATTEMPTS_def)

theorem breaker_open_window_witness:
  "executeWithRetry always_ok None tripped_client (net0 29999)
      = (Inl (breaker_open_error tripped_client), tripped_client, net0 29999)
   \<and> executeWithRetry always_timeout None tripped_client (net0 30000)
      = attempt_loop always_timeout 3 1 None
          (tripped_client\<lparr> circuitBreaker := (circuitBreaker tripped_client)\<lparr> state := HALF_OPEN \<rparr> \<rparr>)
          (net0 30000\<lparr> observed := observed (net0 30000) @ [HALF_OPEN] \<rparr>)
   \<and> executeWithRetry always_not_found None probing_client (net0 36000)
      = attempt_loop always_not_found 3 1 None probing_client (net0 36000)
   \<and> executeWithRetry always_ok None tripped_client (net0 30000)
      = (Inr (), graphRAG_client\<lparr> circuitBreaker := \<lparr> failures = 0, lastFailureTime = 0, state = CLOSED \<rparr> \<rparr>,
         \<lparr> clock = 30000, sent = 1, slept = [], observed = [HALF_OPEN, CLOSED] \<rparr>)
   \<and> fst (executeWithRetry one_timeout_then_ok None tripped_client (net0 30000)) = Inr ()
   \<and> failures (circuitBreaker (fst (snd (executeWithRetry one_timeout_then_ok None tripped_client (net0 30000))))) = 0
   \<and> state (circuitBreaker (fst (snd (executeWithRetry one_timeout_then_ok None tripped_client (net0 30000))))) = CLOSED
   \<and> sent (snd (snd (executeWithRetry one_timeout_then_ok None tripped_client (net0 30000)))) = 2
   \<and> isl (fst (executeWithRetry always_timeout None opened_client (net0 36000)))
   \<and> state (circuitBreaker (fst (snd (executeWithRetry always_timeout None opened_client (net0 36000))))) = OPEN
   \<and> lastFailureTime (circuitBreaker (fst (snd (executeWithRetry always_timeout None opened_client (net0 36000)))))
       = clock (snd (snd (executeWithRetry always_timeout None opened_client (net0 36000))))
   \<and> failures (circuitBreaker (fst (snd (executeWithRetry always_timeout None opened_client (net0 36000))))) = 9
   \<and> sent (snd (snd (executeWithRetry always_timeout None opened_client (net0 36000)))) = 3
   \<and> state (circuitBreaker (fst (snd (executeWithRetry always_timeout None probing_client (net0 36000))))) = OPEN
   \<and> sent (snd (snd (executeWithRetry always_timeout None probing_client (net0 36000)))) = 3
   \<and> state (circuitBreaker (fst (snd (executeWithRetry always_timeout (Some 5) graphRAG_client (net0 0))))) = OPEN"
proof -
  have a: "executeWithRetry always_ok None tripped_client (net0 29999)
      = (Inl (breaker_open_error tripped_client), tripped_client, net0 29999)"
    using breaker_open_window [where bc = tripped_client and w = "net0 29999" and tr = always_ok
        and retries = None, THEN conjunct1]
    by (simp add: tripped_fields net0_def)
  have b1: "executeWithRetry always_timeout None tripped_client (net0 30000)
      = attempt_loop always_timeout 3 1 None
          (tripped_client\<lparr> circuitBreaker := (circuitBreaker tripped_client)\<lparr> state := HALF_OPEN \<rparr> \<rparr>)
          (net0 30000\<lparr> observed := observed (net0 30000) @ [HALF_OPEN] \<rparr>)"
    using breaker_open_window [where bc = tripped_client and w = "net0 30000"
        and tr = always_timeout and retries = None, THEN conjunct2, THEN conjunct1]
    by (simp add: tripped_fields net0_def)
  have b2: "executeWithRetry always_not_found None probing_client (net0 36000)
      = attempt_loop always_not_found 3 1 None probing_client (net0 36000)"
    using breaker_open_window [where bc = probing_client and w = "net0 36000"
        and tr = always_not_found and retries = None, THEN conjunct2, THEN conjunct2, THEN conjunct1]
    by (simp add: probing_fields)
  have c0: "executeWithRetry always_ok None tripped_client (net0 30000)
      = (Inr (), graphRAG_client\<lparr> circuitBreaker := \<lparr> failures = 0, lastFailureTime = 0, state = CLOSED \<rparr> \<rparr>,
         \<lparr> clock = 30000, sent = 1, slept = [], observed = [HALF_OPEN, CLOSED] \<rparr>)"
    using breaker_open_window [where bc = tripped_client and w = "net0 30000" and tr = always_ok
        and retries = None and v = "()", THEN conjunct2, THEN conjunct2, THEN conjunct2,
        THEN conjunct1]
    by (simp add: tripped_fields net0_def always_ok_def) (simp add: tripped_client_def)
  have rt: "retryable_at always_timeout k" for k
    by (simp add: retryable_at_def always_timeout_def)
  have r1: "retryable_at one_timeout_then_ok 0"
    by (simp add: retryable_at_def one_timeout_then_ok_def)
  have c: "fst (executeWithRetry one_timeout_then_ok None tripped_client (net0 30000)) = Inr ()
   \<and> failures (circuitBreaker (fst (snd (executeWithRetry one_timeout_then_ok None tripped_client (net0 30000))))) = 0
   \<and> state (circuitBreaker (fst (snd (executeWithRetry one_timeout_then_ok None tripped_client (net0 30000))))) = CLOSED
   \<and> sent (snd (snd (executeWithRetry one_timeout_then_ok None tripped_client (net0 30000)))) = 2"
    using breaker_open_window [where bc = tripped_client and w = "net0 30000"
        and tr = one_timeout_then_ok and retries = None and v = "()" and j = 1,
        THEN conjunct2, THEN conjunct2, THEN conjunct2, THEN conjunct2, THEN conjunct1] r1
    by (simp add: tripped_fields net0_def one_timeout_then_ok_def)
  have d: "isl (fst (executeWithRetry always_timeout None opened_client (net0 36000)))
   \<and> state (circuitBreaker (fst (snd (executeWithRetry always_timeout None opened_client (net0 36000))))) = OPEN
   \<and> lastFailureTime (circuitBreaker (fst (snd (executeWithRetry always_timeout None opened_client (net0 36000)))))
       = clock (snd (snd (executeWithRetry always_timeout None opened_client (net0 36000))))
   \<and> failures (circuitBreaker (fst (snd (executeWithRetry always_timeout None opened_client (net0 36000))))) = 9
   \<and> sent (snd (snd (executeWithRetry always_timeout None opened_client (net0 36000)))) = 3"
    using breaker_open_window [where bc = opened_client and w = "net0 36000"
        and tr = always_timeout and retries = None and ?tr0.0 = six_timeouts_then_not_found
        and calls = "[(0, None), (0, None)]" and name = "''GraphRAG''" and optA = None
        and optD = None and optB = None and ?w0.0 = "net0 0",
        THEN conjunct2, THEN conjunct2, THEN conjunct2, THEN conjunct2, THEN conjunct2,
        THEN conjunct1] rt opened_run
    by (simp add: opened_fields net0_def graphRAG_client_def [symmetric])
  have d2: "state (circuitBreaker (fst (snd (executeWithRetry always_timeout None probing_client (net0 36000))))) = OPEN
   \<and> sent (snd (snd (executeWithRetry always_timeout None probing_client (net0 36000)))) = 3"
    using breaker_open_window [where bc = probing_client and w = "net0 36000"
        and tr = always_timeout and retries = None and ?tr0.0 = six_timeouts_then_not_found
        and calls = "[(0, None), (0, None), (30000, None)]" and name = "''GraphRAG''"
        and optA = None and optD = None and optB = None and ?w0.0 = "net0 0",
        THEN conjunct2, THEN conjunct2, THEN conjunct2, THEN conjunct2, THEN conjunct2,
        THEN conjunct1] rt probing_run
    by (simp add: probing_fields net0_def graphRAG_client_def [symmetric])
  have e: "state (circuitBreaker (fst (snd (executeWithRetry always_timeout (Some 5) graphRAG_client (net0 0))))) = OPEN"
    using breaker_open_window [where bc = graphRAG_client and w = "net0 0" and tr = always_timeout
        and retries = "Some 5", THEN conjunct2, THEN conjunct2, THEN conjunct2, THEN conjunct2,
        THEN conjunct2, THEN conjunct2] rt
    by (simp add: graphRAG_client_def new_client_def attempts_of_def)
  from a b1 b2 c0 c d d2 e show ?thesis by blast
qed

lemma half_open_run:
  "run_calls six_timeouts_then_not_found [(0, None), (0, None), (30000, None)] graphRAG_client
     (net0 0) =
     (graphRAG_client\<lparr> circuitBreaker := \<lparr> failures = 6, lastFailureTime = 6000, state = HALF_OPEN \<rparr> \<rparr>,
      \<lparr> clock = 36000, sent = 7, slept = [1000, 2000, 1000, 2000],
        observed = [CLOSED, CLOSED, CLOSED, CLOSED, OPEN, OPEN, HALF_OPEN] \<rparr>)"
  by code_simp

lemma half_open_next_run:
  "run_calls six_timeouts_then_not_found [(0, None), (0, None), (30000, None), (0, None)]
     graphRAG_client (net0 0) =
     (graphRAG_client\<lparr> circuitBreaker := \<lparr> failures = 6, lastFailureTime = 6000, state = HALF_OPEN \<rparr> \<rparr>,
      \<lparr> clock = 36000, sent = 8, slept = [1000, 2000, 1000, 2000],
        observed = [CLOSED, CLOSED, CLOSED, CLOSED, OPEN, OPEN, HALF_OPEN] \<rparr>)"
  by code_simp

lemma three_calls_run:
  "run_calls five_timeouts_then_ok [(0, None), (0, None), (1000, None)] graphRAG_client (net0 0) =
     (graphRAG_client\<lparr> circuitBreaker := \<lparr> failures = 0, lastFailureTime = 4000, state = CLOSED \<rparr> \<rparr>,
      \<lparr> clock = 7000, sent = 7, slept = [1000, 2000, 1000, 2000],
        observed = [CLOSED, CLOSED, CLOSED, CLOSED, OPEN, CLOSED, CLOSED] \<rparr>)"
  by code_simp

text \<open>
  Six timeouts in two calls open the breaker. The call made 30 s later sets HALF_OPEN and is
  answered 404, which leaves HALF_OPEN in place, and the next call reaches the transport as
  well. In the second run the last attempt of the call that opened the breaker is fulfilled
  and closes it, so a call started one second later reaches the transport too.
\<close>

theorem breaker_open_window_counterexample:
  "state (circuitBreaker (fst (run_calls six_timeouts_then_not_found
        [(0, None), (0, None), (30000, None)] graphRAG_client (net0 0)))) = HALF_OPEN
   \<and> sent (snd (run_calls six_timeouts_then_not_found
        [(0, None), (0, None), (30000, None)] graphRAG_client (net0 0))) = 7
   \<and> sent (snd (run_calls six_timeouts_then_not_found
        [(0, None), (0, None), (30000, None), (0, None)] graphRAG_client (net0 0))) = 8
   \<and> observed (snd (run_calls five_timeouts_then_ok [(0, None), (0, None)] graphRAG_client (net0 0)))
       = [CLOSED, CLOSED, CLOSED, CLOSED, OPEN, CLOSED]
   \<and> clock (snd (run_calls five_timeouts_then_ok [(0, None), (0, None)] graphRAG_client (net0 0))) = 6000
   \<and> sent (snd (run_calls five_timeouts_then_ok [(0, None), (0, None)] graphRAG_client (net0 0))) = 6
   \<and> sent (snd (run_calls five_timeouts_then_ok [(0, None), (0, None), (1000, None)]
                   graphRAG_client (net0 0))) = 7"
  unfolding half_open_run half_open_next_run two_calls_run three_calls_run by simp

section \<open>Properties of the mission controller\<close>

lemma truthy_Some [simp]: "truthy (Some x) = (x \<noteq> 0)" and truthy_None [simp]: "truthy None = False"
  by (simp_all add: truthy_def)

text \<open>
  Where no wind speed, wind limit, visibility or visibility limit is zero, the evaluator
  decides as the first matching rule of the list does.
\<close>

lemma wind_breached_iff:
  assumes "windSpeed (environment ws) \<noteq> Some 0"
    and "maxWindSpeed (weatherLimits (constraints m)) \<noteq> Some 0"
  shows "wind_breached m ws \<longleftrightarrow>
     truthy (windSpeed (environment ws)) \<and> truthy (maxWindSpeed (weatherLimits (constraints m)))
     \<and> the (windSpeed (environment ws)) > the (maxWindSpeed (weatherLimits (constraints m)))"
  using assms by (auto simp: wind_breached_def split: option.splits)

lemma visibility_breached_iff:
  assumes "visibility (environment ws) \<noteq> Some 0"
    and "minVisibility (weatherLimits (constraints m)) \<noteq> Some 0"
  shows "visibility_breached m ws \<longleftrightarrow>
     truthy (visibility (environment ws)) \<and> truthy (minVisibility (weatherLimits (constraints m)))
     \<and> the (visibility (environment ws)) < the (minVisibility (weatherLimits (constraints m)))"
  using assms by (auto simp: visibility_breached_def split: option.splits)

lemma evaluateProgress_rules:
  assumes "windSpeed (environment ws) \<noteq> Some 0"
    and "maxWindSpeed (weatherLimits (constraints m)) \<noteq> Some 0"
    and "visibility (environment ws) \<noteq> Some 0"
    and "minVisibility (weatherLimits (constraints m)) \<noteq> Some 0"
  shows "evaluateProgress (Some m) (Some ws) = first_match (evaluation_rules m ws)"
  unfolding evaluateProgress_def evaluation_rules_def
    wind_breached_iff [OF assms(1,2)] visibility_breached_iff [OF assms(3,4)]
  by (simp add: Let_def crowded_def battery_low_def system_faulty_def replan_for_def abort_for_def
      continue_mission_def)

text \<open>
  C3. The rules are to be applied in the order crowding, wind, visibility, battery, system
  errors, continue, so that a breached wind limit with a low battery gives the wind reason.
  The evaluator tests the wind speed, the wind limit, the visibility and the visibility limit
  for truth before it compares them, and zero is not true. With a wind limit of 0, wind of
  15 m/s, a battery at 10 percent and no crowd, the wind limit is breached and the list of
  rules gives abort with the wind reason, and the evaluator returns abort with the battery
  reason. With a visibility of 0 under a limit of 1000 m the list gives abort with the
  visibility reason, and the evaluator returns continue. On the world state that
  \<^verbatim>\<open>assessSituation\<close> produces, with its wind of 5 m/s, a mission with the wind limit 0 is
  continued where the list gives abort.
\<close>

theorem evaluation_skips_zero_limit:
  "wind_breached still_air_mission (storm_state [parked_car])
   \<and> battery_low still_air_mission (storm_state [parked_car])
   \<and> \<not> crowded (storm_state [parked_car])
   \<and> first_match (evaluation_rules still_air_mission (storm_state [parked_car]))
       = abort_for (WindExceedsLimits 15)
   \<and> evaluateProgress (Some still_air_mission) (Some (storm_state [parked_car]))
       = abort_for (LowBattery 10)
   \<and> visibility_breached demo_mission fog_state
   \<and> first_match (evaluation_rules demo_mission fog_state) = abort_for (VisibilityBelowLimits 0)
   \<and> evaluateProgress (Some demo_mission) (Some fog_state) = continue_mission
   \<and> wind_breached still_air_mission (fst (assessSituation healthy_services idle_controller))
   \<and> first_match (evaluation_rules still_air_mission
          (fst (assessSituation healthy_services idle_controller)))
       = abort_for (WindExceedsLimits 5)
   \<and> evaluateProgress (Some still_air_mission)
          (Some (fst (assessSituation healthy_services idle_controller)))
       = continue_mission"
  by code_simp

text \<open>
  C8. When the world state holds no tracked object classified as a person, \<^verbatim>\<open>deliverPackage\<close>
  returns a result with \<open>success = False\<close>, raises nothing and leaves the controller and the
  world as they were, so it issues no write. Reached through \<^verbatim>\<open>executeAction\<close> with a store
  that accepts the action episode, the result is again \<open>success = False\<close> and the action
  episode is the only write issued: no delivery episode is written.
\<close>

theorem deliver_without_recipient:
  assumes "worldState s = Some ws" and "filter is_person (trackedObjects ws) = []"
  shows "snd (deliverPackage c s) = s
       \<and> (\<exists>r. fst (deliverPackage c s) = Inr r \<and> success r = False)
       \<and> (switch_on (action_type a) = DELIVER_PACKAGE \<and> snd (store_reply c (stores s)) = Inr ()
            \<longrightarrow> (\<exists>r. fst (executeAction c a s) = Inr r \<and> success r = False)
              \<and> issued (snd (executeAction c a s))
                  = issued s @ [StoreEpisode (ActionExecuted (action_type a) (reasoning a))
                                  ''action'' (7 / 10)])"
  using assms
  by (cases "mission s")
    (simp_all add: deliverPackage_def executeAction_def storeEpisode_def store_def
      no_mission_or_world_state_def)

theorem deliver_without_recipient_witness:
  "deliverPackage healthy_services empty_street =
     (Inr \<lparr> success = False, result_message = ''No recipient detected, aborting delivery'',
            extra = NoPayload \<rparr>, empty_street)
   \<and> issued (snd (executeAction healthy_services deliver empty_street))
       = [StoreEpisode (ActionExecuted ''deliver_package'' ''at the door'') ''action'' (7 / 10)]"
proof -
  have h: "worldState empty_street = Some (storm_state [parked_car])"
    "filter is_person (trackedObjects (storm_state [parked_car])) = []"
    by (simp_all add: empty_street_def idle_controller_def storm_state_def is_person_def
        parked_car_def bystander_def)
  have sw: "switch_on (action_type deliver) = DELIVER_PACKAGE"
    by (simp add: deliver_def switch_on_def)
  have ok: "snd (store_reply healthy_services (stores empty_street)) = Inr ()"
    by (simp add: healthy_services_def)
  have d: "deliverPackage healthy_services empty_street =
     (Inr \<lparr> success = False, result_message = ''No recipient detected, aborting delivery'',
            extra = NoPayload \<rparr>, empty_street)"
    by code_simp
  from deliver_without_recipient [OF h, of healthy_services deliver] sw ok d show ?thesis
    by (simp add: deliver_def empty_street_def idle_controller_def)
qed

text \<open>
  C10. The world state that \<^verbatim>\<open>assessSituation\<close> returns and stores has position (0, 0, 0),
  battery 100, no system error, wind speed 5 and visibility 10000 whatever the perception
  service answers; besides the tracked objects only the two time stamps are not constants.
  For every mission whose battery reserve is at most 100, the default of 20 included, the
  battery rule and the system-error rule of the evaluator do not fire on such a state.
\<close>

theorem assess_fixed_telemetry:
  "fst (assessSituation c s) =
     \<lparr> ws_timestamp = now (snd (assessSituation c s)),
       position = \<lparr> latitude = 0, longitude = 0, altitude = 0, timestamp = now s \<rparr>,
       velocity = \<lparr> vx = 0, vy = 0, vz = 0, speed = 0, heading = 0 \<rparr>,
       attitude = [0, 0, 0],
       trackedObjects = trackedObjects (fst (assessSituation c s)),
       health = \<lparr> battery = 100, temperature = 25, errors = [] \<rparr>,
       environment = \<lparr> windSpeed = Some 5, env_temperature = Some 20, humidity = Some 60,
                       visibility = Some 10000 \<rparr> \<rparr>
   \<and> worldState (snd (assessSituation c s)) = Some (fst (assessSituation c s))
   \<and> (batteryReserve (constraints m) \<le> 100
        \<longrightarrow> \<not> battery_low m (fst (assessSituation c s))
          \<and> \<not> system_faulty (fst (assessSituation c s))
          \<and> eval_reason (evaluateProgress (Some m) (Some (fst (assessSituation c s))))
               \<noteq> Some (LowBattery b)
          \<and> eval_reason (evaluateProgress (Some m) (Some (fst (assessSituation c s))))
               \<noteq> Some (SystemErrors es))"
  by (simp add: assessSituation_def Let_def case_prod_beta evaluateProgress_def battery_low_def
      system_faulty_def or_real_def)

theorem assess_fixed_telemetry_witness:
  "battery (health (fst (assessSituation healthy_services idle_controller))) = 100
   \<and> \<not> battery_low demo_mission (fst (assessSituation healthy_services idle_controller))
   \<and> \<not> system_faulty (fst (assessSituation healthy_services idle_controller))
   \<and> evaluateProgress (Some demo_mission) (Some (fst (assessSituation healthy_services idle_controller)))
       = continue_mission"
proof -
  have h: "batteryReserve (constraints demo_mission) \<le> 100" by (simp add: demo_mission_def)
  have e: "evaluateProgress (Some demo_mission) (Some (fst (assessSituation healthy_services idle_controller)))
       = continue_mission"
    by code_simp
  have b: "battery (health (fst (assessSituation healthy_services idle_controller))) = 100"
    using assess_fixed_telemetry [of healthy_services idle_controller, THEN conjunct1]
    by (metis Health.select_convs(1) WorldState.select_convs(6))
  from assess_fixed_telemetry [of healthy_services idle_controller demo_mission,
      THEN conjunct2, THEN conjunct2] h e b
  show ?thesis by blast
qed

lemma store_kept [simp]:
  "mission (snd (store c q t)) = mission t"
  "iteration (snd (store c q t)) = iteration t"
  "startTime (snd (store c q t)) = startTime t"
  "worldState (snd (store c q t)) = worldState t"
  "frames (snd (store c q t)) = frames t"
  "decisions (snd (store c q t)) = decisions t"
  "pauses (snd (store c q t)) = pauses t"
  by (simp_all add: store_def)

lemma storeEpisode_kept [simp]:
  "mission (snd (storeEpisode c e k i t)) = mission t"
  "iteration (snd (storeEpisode c e k i t)) = iteration t"
  "startTime (snd (storeEpisode c e k i t)) = startTime t"
  "worldState (snd (storeEpisode c e k i t)) = worldState t"
  by (simp_all add: storeEpisode_def)

lemma assessSituation_kept [simp]:
  "mission (snd (assessSituation c t)) = mission t"
  "iteration (snd (assessSituation c t)) = iteration t"
  "startTime (snd (assessSituation c t)) = startTime t"
  "stores (snd (assessSituation c t)) = stores t"
  by (simp_all add: assessSituation_def detectObjects_def Let_def case_prod_beta split: sum.splits)

lemma planNextAction_kept [simp]:
  "mission (snd (planNextAction c w t)) = mission t"
  "iteration (snd (planNextAction c w t)) = iteration t"
  "startTime (snd (planNextAction c w t)) = startTime t"
  "stores (snd (planNextAction c w t)) = stores t"
  "worldState (snd (planNextAction c w t)) = worldState t"
  by (simp_all add: planNextAction_def Let_def split: option.splits sum.splits)

lemma inspectArea_kept [simp]:
  "mission (snd (inspectArea c t)) = mission t"
  "iteration (snd (inspectArea c t)) = iteration t"
  "startTime (snd (inspectArea c t)) = startTime t"
  by (simp_all add: inspectArea_def case_prod_beta split: option.splits sum.splits)

lemma collectData_kept [simp]:
  "mission (snd (collectData c t)) = mission t"
  "iteration (snd (collectData c t)) = iteration t"
  "startTime (snd (collectData c t)) = startTime t"
  by (simp_all add: collectData_def case_prod_beta split: option.splits sum.splits)

lemma deliverPackage_kept [simp]:
  "mission (snd (deliverPackage c t)) = mission t"
  "iteration (snd (deliverPackage c t)) = iteration t"
  "startTime (snd (deliverPackage c t)) = startTime t"
  by (simp_all add: deliverPackage_def case_prod_beta Let_def split: option.splits sum.splits)

lemma scanForPeople_kept [simp]:
  "mission (snd (scanForPeople c t)) = mission t"
  "iteration (snd (scanForPeople c t)) = iteration t"
  "startTime (snd (scanForPeople c t)) = startTime t"
  by (simp_all add: scanForPeople_def case_prod_beta Let_def split: option.splits sum.splits)

lemma pauseForSafety_kept [simp]:
  "mission (snd (pauseForSafety c t)) = mission t"
  "iteration (snd (pauseForSafety c t)) = iteration t"
  "startTime (snd (pauseForSafety c t)) = startTime t"
  by (simp_all add: pauseForSafety_def case_prod_beta controller_sleep_def split: option.splits sum.splits)

lemma executeAction_kept [simp]:
  "mission (snd (executeAction c a t)) = mission t"
  "iteration (snd (executeAction c a t)) = iteration t"
  "startTime (snd (executeAction c a t)) = startTime t"
  by (simp_all add: executeAction_def case_prod_beta split: sum.splits case_label.splits)

lemma observeOutcome_kept [simp]:
  "mission (snd (observeOutcome c a t)) = mission t"
  "iteration (snd (observeOutcome c a t)) = iteration t"
  "startTime (snd (observeOutcome c a t)) = startTime t"
  "stores (snd (observeOutcome c a t)) = stores t"
  by (simp_all add: observeOutcome_def case_prod_beta)

lemma updateWorldModel_kept [simp]:
  "mission (snd (updateWorldModel c ob t)) = mission t"
  "iteration (snd (updateWorldModel c ob t)) = iteration t"
  "startTime (snd (updateWorldModel c ob t)) = startTime t"
  by (simp_all add: updateWorldModel_def)

lemma replanMission_kept [simp]:
  "mission (snd (replanMission c y t)) = mission t"
  "iteration (snd (replanMission c y t)) = iteration t"
  "startTime (snd (replanMission c y t)) = startTime t"
  "worldState (snd (replanMission c y t)) = worldState t"
  by (simp_all add: replanMission_def)

lemma react_iteration_kept [simp]:
  "iteration (snd (react_iteration c t)) = iteration t"
  "startTime (snd (react_iteration c t)) = startTime t"
  by (simp_all add: react_iteration_def case_prod_beta Let_def set_status_def controller_sleep_def
      split: sum.splits)

text \<open>The loop body changes the mission only by the assignment of ABORTED before \<^verbatim>\<open>break\<close>.\<close>

lemma react_iteration_mission:
  "react_iteration c t = (r, t') \<Longrightarrow>
     (r = Inr True \<and> mission t' = map_option (\<lambda>m. m\<lparr> status := ABORTED \<rparr>) (mission t)
        \<and> shouldAbort (evaluateProgress (mission t) (worldState t')))
     \<or> (r \<noteq> Inr True \<and> mission t' = mission t)"
  by (auto simp add: react_iteration_def case_prod_beta Let_def set_status_def controller_sleep_def
      split: sum.splits if_splits)

declare react_loop.simps [simp del]

lemma react_loop_kept:
  "react_loop c s = (r, s') \<Longrightarrow> startTime s' = startTime s"
proof (induction c s arbitrary: r s' rule: react_loop.induct)
  case (1 c s)
  show ?case
  proof (cases "iteration s < maxIterations \<and> \<not> isMissionComplete s")
    case False
    with "1.prems" show ?thesis by (auto simp: react_loop.simps [of c s])
  next
    case True
    obtain x y where body: "react_iteration c (s\<lparr> iteration := iteration s + 1 \<rparr>) = (x, y)"
      by (cases "react_iteration c (s\<lparr> iteration := iteration s + 1 \<rparr>)")
    from body have y: "startTime y = startTime s"
      using react_iteration_kept(2) [of c "s\<lparr> iteration := iteration s + 1 \<rparr>"] by simp
    show ?thesis
    proof (cases x)
      case (Inl e)
      with True body "1.prems" y show ?thesis by (auto simp: react_loop.simps [of c s])
    next
      case (Inr brk)
      show ?thesis
      proof (cases brk)
        case True
        with \<open>iteration s < maxIterations \<and> \<not> isMissionComplete s\<close> Inr body "1.prems" y
        show ?thesis by (auto simp: react_loop.simps [of c s])
      next
        case False
        with \<open>iteration s < maxIterations \<and> \<not> isMissionComplete s\<close> Inr body "1.prems"
        have "react_loop c y = (r, s')" by (auto simp: react_loop.simps [of c s])
        from "1.IH" [OF True body [symmetric] Inr False this] y show ?thesis by simp
      qed
    qed
  qed
qed

text \<open>
  The loop changes the mission only by the assignment of ABORTED, and then it has stopped
  without an error on an evaluation that asked to abort.
\<close>

lemma react_loop_mission:
  "react_loop c s = (r, s') \<Longrightarrow>
     mission s' = mission s
     \<or> (r = Inr () \<and> mission s' = map_option (\<lambda>m. m\<lparr> status := ABORTED \<rparr>) (mission s)
          \<and> shouldAbort (evaluateProgress (mission s) (worldState s')))"
proof (induction c s arbitrary: r s' rule: react_loop.induct)
  case (1 c s)
  show ?case
  proof (cases "iteration s < maxIterations \<and> \<not> isMissionComplete s")
    case False
    with "1.prems" show ?thesis by (auto simp: react_loop.simps [of c s])
  next
    case True
    obtain x y where body: "react_iteration c (s\<lparr> iteration := iteration s + 1 \<rparr>) = (x, y)"
      by (cases "react_iteration c (s\<lparr> iteration := iteration s + 1 \<rparr>)")
    note m = react_iteration_mission [OF body]
    show ?thesis
    proof (cases x)
      case (Inl e)
      with True body "1.prems" m show ?thesis by (auto simp: react_loop.simps [of c s])
    next
      case (Inr brk)
      show ?thesis
      proof (cases brk)
        case True
        with \<open>iteration s < maxIterations \<and> \<not> isMissionComplete s\<close> Inr body "1.prems"
        have "r = Inr ()" "s' = y" by (auto simp: react_loop.simps [of c s])
        with m Inr True show ?thesis by auto
      next
        case False
        with \<open>iteration s < maxIterations \<and> \<not> isMissionComplete s\<close> Inr body "1.prems"
        have "react_loop c y = (r, s')" by (auto simp: react_loop.simps [of c s])
        from "1.IH" [OF True body [symmetric] Inr False this] m Inr False show ?thesis by auto
      qed
    qed
  qed
qed

lemma react_loop_done:
  "isMissionComplete s \<Longrightarrow> react_loop c s = (Inr (), s)"
  by (simp add: react_loop.simps [of c s])

lemma finalizeMission_result:
  "finalizeMission c s = (Inr result, s') \<Longrightarrow>
     \<exists>m. mission s = Some m \<and> mission s' = Some m \<and> result_status result = status m"
  by (auto simp: finalizeMission_def Let_def storeMissionResult_def storeDocument_def
      storePattern_def case_prod_beta split: option.splits sum.splits if_splits)

lemma finalizeMission_mission [simp]:
  "mission (snd (finalizeMission c s)) = mission s"
  by (auto simp: finalizeMission_def Let_def storeMissionResult_def storeDocument_def
      storePattern_def case_prod_beta split: option.splits sum.splits if_splits)

lemma pair_of_fst: "fst p = x \<Longrightarrow> p = (x, snd p)"
  by (cases p) simp

lemma windy_run:
  "fst (executeMission healthy_services windy_mission idle_controller) =
     Inr \<lparr> missionId = ''m-1'', result_status = ABORTED, objectivesCompleted = 0,
           objectivesTotal = 1, duration = 3 / 25, distanceTraveled = 0, energyConsumed = 0,
           lessons = [''Completed 0/1 objectives'', ''Took 1 iterations'',
                      ''Safety-first approach maintained throughout mission''] \<rparr>"
  by code_simp

lemma windy_run_store_down:
  "fst (executeMission (store_fails_at 1) windy_mission idle_controller) =
     Inl (RoboticsError ''Mission execution failed: GraphRAG: timeout of 30000ms exceeded''
            ''MISSION_ERROR'' 500 (MissionDetails ''m-1'' 1))"
  by code_simp

lemma windy_run_store_down_status:
  "map_option status (mission (snd (executeMission (store_fails_at 1) windy_mission idle_controller)))
     = Some FAILED"
  by code_simp

lemma go_on_run:
  "fst (executeAction healthy_services go_on empty_street) =
     Inr \<lparr> success = True, result_message = ''Continuing on planned path'', extra = NoPayload \<rparr>"
  by code_simp

lemma go_on_store_down:
  "fst (executeAction (store_fails_at 0) go_on empty_street) = Inl store_unavailable"
  by code_simp

lemma finished_run:
  "fst (executeMission healthy_services finished_mission idle_controller) =
     Inr \<lparr> missionId = ''m-1'', result_status = IN_PROGRESS, objectivesCompleted = 1,
           objectivesTotal = 1, duration = 1 / 25, distanceTraveled = 0, energyConsumed = 0,
           lessons = [''Completed 1/1 objectives'', ''Took 0 iterations'',
                      ''Safety-first approach maintained throughout mission''] \<rparr>"
  by code_simp

text \<open>
  C9. \<^verbatim>\<open>executeMission\<close> never assigns COMPLETED. When it returns a result, the mission's
  status equals the status of the result, which is the status the mission had at the call, or
  ABORTED after an evaluation that asked to abort. When it raises, the mission is unchanged
  (the start episode could not be written) or its status is FAILED. Hence a mission that was
  not COMPLETED at the call is not COMPLETED afterwards, and neither is a returned result.
\<close>

theorem status_never_set_to_completed:
  "(executeMission c m s = (Inr result, s') \<longrightarrow>
      mission s' = Some (m\<lparr> status := result_status result \<rparr>)
      \<and> (result_status result = status m
          \<or> (result_status result = ABORTED
              \<and> shouldAbort (evaluateProgress (Some m) (worldState s')))))
   \<and> (executeMission c m s = (Inl e, s') \<longrightarrow>
      mission s' = Some m \<or> mission s' = Some (m\<lparr> status := FAILED \<rparr>))
   \<and> (status m \<noteq> COMPLETED \<longrightarrow>
        (\<forall>m'. mission (snd (executeMission c m s)) = Some m' \<longrightarrow> status m' \<noteq> COMPLETED)
        \<and> (\<forall>res. fst (executeMission c m s) = Inr res \<longrightarrow> result_status res \<noteq> COMPLETED))"
proof -
  define s0 where "s0 = s\<lparr> mission := Some m, iteration := 0, startTime := now s \<rparr>"
  define st where "st = storeEpisode c (MissionStarted (mission_name m) (mission_type m))
      ''mission_start'' (9 / 10) s0"
  have m1: "mission (snd st) = Some m" by (simp add: st_def s0_def)
  obtain lr s2 where loop: "react_loop c (snd st) = (lr, s2)" by (cases "react_loop c (snd st)")
  note lm = react_loop_mission [OF loop]
  obtain tr s3 where tb: "try_block c (snd st) = (tr, s3)" by (cases "try_block c (snd st)")
  have m3: "mission s3 = Some m
      \<or> (mission s3 = Some (m\<lparr> status := ABORTED \<rparr>)
          \<and> shouldAbort (evaluateProgress (Some m) (worldState s2)) \<and> lr = Inr ())"
    using tb loop lm m1
    by (auto simp: try_block_def split: sum.splits
        dest: arg_cong [where f = "\<lambda>p. mission (snd p)"])
  have ws3: "tr = Inr result \<Longrightarrow> worldState s3 = worldState s2
      \<and> (\<exists>m'. mission s3 = Some m' \<and> result_status result = status m')" for result
    using tb loop
    by (auto simp: try_block_def finalizeMission_def Let_def storeMissionResult_def storeDocument_def
        storePattern_def store_def split: sum.splits option.splits if_splits prod.splits)
  have ex: "executeMission c m s =
      (case fst st of Inl e \<Rightarrow> (Inl e, snd st)
       | Inr u \<Rightarrow> (case tr of Inr result \<Rightarrow> (Inr result, s3)
                   | Inl error \<Rightarrow> (Inl (mission_failed m (iteration s3) error), set_status FAILED s3)))"
    by (simp add: executeMission_def st_def [symmetric] s0_def [symmetric] case_prod_beta tb
        split: sum.splits)
  have a: "executeMission c m s = (Inr result, s') \<longrightarrow>
      mission s' = Some (m\<lparr> status := result_status result \<rparr>)
      \<and> (result_status result = status m
          \<or> (result_status result = ABORTED
              \<and> shouldAbort (evaluateProgress (Some m) (worldState s'))))" for result s'
    using m3 ws3 [of result] unfolding ex by (auto split: sum.splits)
  have b: "executeMission c m s = (Inl e, s') \<longrightarrow>
      mission s' = Some m \<or> mission s' = Some (m\<lparr> status := FAILED \<rparr>)" for e s'
    using m3 m1 unfolding ex by (auto simp: set_status_def split: sum.splits)
  have c: "status m \<noteq> COMPLETED \<longrightarrow>
        (\<forall>m'. mission (snd (executeMission c m s)) = Some m' \<longrightarrow> status m' \<noteq> COMPLETED)
        \<and> (\<forall>res. fst (executeMission c m s) = Inr res \<longrightarrow> result_status res \<noteq> COMPLETED)"
    using a [of "projr (fst (executeMission c m s))" "snd (executeMission c m s)"]
      b [of "projl (fst (executeMission c m s))" "snd (executeMission c m s)"]
    by (cases "fst (executeMission c m s)"; cases "executeMission c m s") auto
  from a b c show ?thesis by blast
qed

theorem status_never_set_to_completed_witness:
  "mission (snd (executeMission healthy_services windy_mission idle_controller))
     = Some (windy_mission\<lparr> status := ABORTED \<rparr>)
   \<and> shouldAbort (evaluateProgress (Some windy_mission)
        (worldState (snd (executeMission healthy_services windy_mission idle_controller))))
   \<and> (mission (snd (executeMission (store_fails_at 1) windy_mission idle_controller))
        = Some windy_mission
      \<or> mission (snd (executeMission (store_fails_at 1) windy_mission idle_controller))
        = Some (windy_mission\<lparr> status := FAILED \<rparr>))
   \<and> result_status (projr (fst (executeMission healthy_services windy_mission idle_controller)))
       \<noteq> COMPLETED"
proof -
  have ne: "status windy_mission \<noteq> ABORTED" "status windy_mission \<noteq> COMPLETED"
    by (simp_all add: windy_mission_def demo_mission_def)
  have a: "mission (snd (executeMission healthy_services windy_mission idle_controller))
     = Some (windy_mission\<lparr> status := ABORTED \<rparr>)
   \<and> shouldAbort (evaluateProgress (Some windy_mission)
        (worldState (snd (executeMission healthy_services windy_mission idle_controller))))"
    using status_never_set_to_completed [where c = healthy_services and m = windy_mission
        and s = idle_controller
        and s' = "snd (executeMission healthy_services windy_mission idle_controller)"
        and result = "projr (fst (executeMission healthy_services windy_mission idle_controller))",
        THEN conjunct1]
      pair_of_fst [OF windy_run] ne
    by (simp add: windy_run)
  have b: "mission (snd (executeMission (store_fails_at 1) windy_mission idle_controller))
        = Some windy_mission
      \<or> mission (snd (executeMission (store_fails_at 1) windy_mission idle_controller))
        = Some (windy_mission\<lparr> status := FAILED \<rparr>)"
    using status_never_set_to_completed [where c = "store_fails_at 1" and m = windy_mission
        and s = idle_controller
        and s' = "snd (executeMission (store_fails_at 1) windy_mission idle_controller)",
        THEN conjunct2, THEN conjunct1]
      pair_of_fst [OF windy_run_store_down]
    by blast
  have c: "result_status (projr (fst (executeMission healthy_services windy_mission idle_controller)))
       \<noteq> COMPLETED"
    using status_never_set_to_completed [where c = healthy_services and m = windy_mission
        and s = idle_controller, THEN conjunct2, THEN conjunct2] ne windy_run
    by (metis sum.sel(2))
  from a b c show ?thesis by blast
qed

text \<open>
  C4 (amended). For a mission whose objectives are all completed at the call, when the store
  accepts the start episode and the mission result (and the pattern, if the mission's status
  is COMPLETED), \<^verbatim>\<open>executeMission\<close> returns a result after zero iterations: no perception call,
  no decision call and no sleep. The status of the result is the status the mission had at
  the call, all objectives are counted as completed, and the duration is the time the write
  of the start episode took.
\<close>

theorem precompleted_mission:
  assumes "list_all completed (objectives m)"
    and "snd (store_reply c (stores s)) = Inr ()"
    and "snd (store_reply c (stores s + 1)) = Inr ()"
    and "status m = COMPLETED \<longrightarrow> snd (store_reply c (stores s + 2)) = Inr ()"
  shows "\<exists>s'. executeMission c m s =
           (Inr \<lparr> missionId = mission_id m,
                  result_status = status m,
                  objectivesCompleted = length (objectives m),
                  objectivesTotal = length (objectives m),
                  duration = real (fst (store_reply c (stores s))) / 1000,
                  distanceTraveled = 0,
                  energyConsumed = 0,
                  lessons =
                    [''Completed '' @ show_nat (length (objectives m)) @ ''/''
                       @ show_nat (length (objectives m)) @ '' objectives'',
                     ''Took '' @ show_nat 0 @ '' iterations'',
                     ''Safety-first approach maintained throughout mission''] \<rparr>, s')
         \<and> iteration s' = 0 \<and> frames s' = frames s \<and> decisions s' = decisions s
         \<and> pauses s' = pauses s \<and> mission s' = Some m"
proof -
  define s1 where "s1 = snd (storeEpisode c (MissionStarted (mission_name m) (mission_type m))
      ''mission_start'' (9 / 10) (s\<lparr> mission := Some m, iteration := 0, startTime := now s \<rparr>))"
  have st: "storeEpisode c (MissionStarted (mission_name m) (mission_type m))
      ''mission_start'' (9 / 10) (s\<lparr> mission := Some m, iteration := 0, startTime := now s \<rparr>)
      = (Inr (), s1)"
    using assms(2) by (simp add: s1_def storeEpisode_def store_def)
  have f1: "mission s1 = Some m" "iteration s1 = 0" "startTime s1 = now s"
    "now s1 = now s + int (fst (store_reply c (stores s)))" "stores s1 = stores s + 1"
    "frames s1 = frames s" "decisions s1 = decisions s" "pauses s1 = pauses s"
    by (simp_all add: s1_def storeEpisode_def store_def)
  have "isMissionComplete s1"
    using assms(1) f1(1) by (simp add: isMissionComplete_def)
  then have loop: "react_loop c s1 = (Inr (), s1)" by (rule react_loop_done)
  have all: "filter completed (objectives m) = objectives m"
    using assms(1) by (simp add: list_all_iff)
  show ?thesis
    using assms(3,4) f1
    by (simp add: executeMission_def st try_block_def loop finalizeMission_def Let_def all
        storeMissionResult_def storeDocument_def storePattern_def store_def)
qed

theorem precompleted_mission_witness:
  "list_all completed (objectives finished_mission)
   \<and> (\<exists>s'. executeMission healthy_services finished_mission idle_controller =
          (Inr \<lparr> missionId = ''m-1'', result_status = IN_PROGRESS, objectivesCompleted = 1,
                 objectivesTotal = 1, duration = 1 / 25, distanceTraveled = 0, energyConsumed = 0,
                 lessons = [''Completed 1/1 objectives'', ''Took 0 iterations'',
                            ''Safety-first approach maintained throughout mission''] \<rparr>, s')
        \<and> iteration s' = 0 \<and> frames s' = 0 \<and> decisions s' = 0 \<and> pauses s' = [])"
proof -
  have h: "list_all completed (objectives finished_mission)"
    "snd (store_reply healthy_services (stores idle_controller)) = Inr ()"
    "snd (store_reply healthy_services (stores idle_controller + 1)) = Inr ()"
    "status finished_mission = COMPLETED
      \<longrightarrow> snd (store_reply healthy_services (stores idle_controller + 2)) = Inr ()"
    by (simp_all add: finished_mission_def demo_mission_def healthy_services_def)
  have sn: "show_nat (Suc 0) = ''1''" "show_nat 0 = ''0''" by code_simp+
  from precompleted_mission [OF h] obtain s' where run:
    "executeMission healthy_services finished_mission idle_controller =
       (Inr \<lparr> missionId = mission_id finished_mission,
              result_status = status finished_mission,
              objectivesCompleted = length (objectives finished_mission),
              objectivesTotal = length (objectives finished_mission),
              duration = real (fst (store_reply healthy_services (stores idle_controller))) / 1000,
              distanceTraveled = 0,
              energyConsumed = 0,
              lessons =
                [''Completed '' @ show_nat (length (objectives finished_mission)) @ ''/''
                   @ show_nat (length (objectives finished_mission)) @ '' objectives'',
                 ''Took '' @ show_nat 0 @ '' iterations'',
                 ''Safety-first approach maintained throughout mission''] \<rparr>, s')"
    and fr: "iteration s' = 0" "frames s' = frames idle_controller"
      "decisions s' = decisions idle_controller" "pauses s' = pauses idle_controller"
    by blast
  have "executeMission healthy_services finished_mission idle_controller =
          (Inr \<lparr> missionId = ''m-1'', result_status = IN_PROGRESS, objectivesCompleted = 1,
                 objectivesTotal = 1, duration = 1 / 25, distanceTraveled = 0, energyConsumed = 0,
                 lessons = [''Completed 1/1 objectives'', ''Took 0 iterations'',
                            ''Safety-first approach maintained throughout mission''] \<rparr>, s')"
    unfolding run
    by (simp add: finished_mission_def demo_mission_def healthy_services_def idle_controller_def sn)
  with fr h(1) show ?thesis
    by (intro conjI exI [of _ s']) (simp_all add: idle_controller_def)
qed

theorem precompleted_mission_counterexample:
  "list_all completed (objectives finished_mission)
   \<and> fst (executeMission healthy_services finished_mission idle_controller) =
       Inr \<lparr> missionId = ''m-1'', result_status = IN_PROGRESS, objectivesCompleted = 1,
             objectivesTotal = 1, duration = 1 / 25, distanceTraveled = 0, energyConsumed = 0,
             lessons = [''Completed 1/1 objectives'', ''Took 0 iterations'',
                        ''Safety-first approach maintained throughout mission''] \<rparr>"
  using finished_run by (simp add: finished_mission_def)

lemma writes_refl: "stores s' = stores s \<Longrightarrow> writes_succeeded c s s'"
  by (auto simp: writes_succeeded_def)

lemma writes_trans:
  "writes_succeeded c s s1 \<Longrightarrow> writes_succeeded c s1 s2 \<Longrightarrow> writes_succeeded c s s2"
  unfolding writes_succeeded_def by (meson le_trans not_le)

lemma store_writes:
  "fst (store c q s) = Inr u \<Longrightarrow> writes_succeeded c s (snd (store c q s))"
  by (auto simp: store_def writes_succeeded_def less_Suc_eq_le)

lemma storeEpisode_writes:
  "fst (storeEpisode c e k i s) = Inr u \<Longrightarrow> writes_succeeded c s (snd (storeEpisode c e k i s))"
  unfolding storeEpisode_def by (rule store_writes)

lemma writes_sleep [simp]:
  "writes_succeeded c s (controller_sleep ms s') = writes_succeeded c s s'"
  by (simp add: writes_succeeded_def controller_sleep_def)

lemma writes_set_status [simp]:
  "writes_succeeded c s (set_status st s') = writes_succeeded c s s'"
  by (simp add: writes_succeeded_def set_status_def)

lemma inspectArea_writes:
  "inspectArea c s = (Inr r, s') \<Longrightarrow> writes_succeeded c s s'"
  by (auto simp: inspectArea_def case_prod_beta split: option.splits sum.splits
      intro: storeEpisode_writes writes_refl)

lemma collectData_writes:
  "collectData c s = (Inr r, s') \<Longrightarrow> writes_succeeded c s s'"
  by (auto simp: collectData_def case_prod_beta split: option.splits sum.splits
      intro: storeEpisode_writes writes_refl)

lemma deliverPackage_writes:
  "deliverPackage c s = (Inr r, s') \<Longrightarrow> writes_succeeded c s s'"
  by (auto simp: deliverPackage_def case_prod_beta Let_def split: option.splits sum.splits if_splits
      intro: storeEpisode_writes writes_refl)

lemma scanForPeople_writes:
  "scanForPeople c s = (Inr r, s') \<Longrightarrow> writes_succeeded c s s'"
  by (auto simp: scanForPeople_def case_prod_beta Let_def split: option.splits sum.splits if_splits
      intro: storeEpisode_writes writes_refl)

lemma pauseForSafety_writes:
  "pauseForSafety c s = (Inr r, s') \<Longrightarrow> writes_succeeded c s s'"
  by (auto simp: pauseForSafety_def case_prod_beta split: option.splits sum.splits
      intro: storeEpisode_writes writes_refl)

lemma executeAction_writes:
  assumes "executeAction c a s = (Inr r, s')"
  shows "writes_succeeded c s s'"
proof -
  define st where "st = storeEpisode c (ActionExecuted (action_type a) (reasoning a)) ''action'' (7 / 10) s"
  from assms obtain u where u: "fst st = Inr u"
    by (cases "fst st") (auto simp: executeAction_def st_def [symmetric] case_prod_beta)
  then have w1: "writes_succeeded c s (snd st)"
    unfolding st_def by (rule storeEpisode_writes)
  have "writes_succeeded c (snd st) s'"
    using assms u
    by (cases "switch_on (action_type a)")
      (auto simp: executeAction_def st_def [symmetric] case_prod_beta
        intro: writes_refl inspectArea_writes collectData_writes deliverPackage_writes
          scanForPeople_writes pauseForSafety_writes)
  with w1 show ?thesis by (rule writes_trans)
qed

lemma executeAction_first_write:
  "snd (store_reply c (stores s)) = Inl e \<Longrightarrow> fst (executeAction c a s) = Inl e"
  by (simp add: executeAction_def storeEpisode_def store_def)

lemma react_iteration_writes:
  assumes "react_iteration c s = (Inr b, s')"
  shows "writes_succeeded c s s'"
proof -
  obtain w s1 where 1: "assessSituation c s = (w, s1)" by (cases "assessSituation c s")
  obtain pr s2 where 2: "planNextAction c w s1 = (pr, s2)" by (cases "planNextAction c w s1")
  from assms 1 2 obtain action where pr: "pr = Inr action"
    by (cases pr) (auto simp: react_iteration_def)
  obtain er s3 where 3: "executeAction c action s2 = (er, s3)" by (cases "executeAction c action s2")
  from assms 1 2 pr 3 obtain ar where er: "er = Inr ar"
    by (cases er) (auto simp: react_iteration_def)
  obtain ob s4 where 4: "observeOutcome c ar s3 = (ob, s4)" by (cases "observeOutcome c ar s3")
  obtain ur s5 where 5: "updateWorldModel c ob s4 = (ur, s5)" by (cases "updateWorldModel c ob s4")
  from assms 1 2 pr 3 er 4 5 obtain u where ur: "ur = Inr u"
    by (cases ur) (auto simp: react_iteration_def)
  define ev where "ev = evaluateProgress (mission s5) (worldState s5)"
  define rp where "rp = (if needsReplanning ev
      then replanMission c (case eval_reason ev of Some r \<Rightarrow> r | None \<Rightarrow> ReplanningRequired) s5
      else (Inr (), s5))"
  have unfold: "react_iteration c s =
      (case rp of
         (Inl e, s6) \<Rightarrow> (Inl e, s6)
       | (Inr u2, s6) \<Rightarrow>
           if shouldAbort ev then (Inr True, set_status ABORTED s6)
           else (Inr False, controller_sleep 100 s6))"
    unfolding ev_def rp_def by (simp add: react_iteration_def 1 2 pr 3 er 4 5 ur Let_def)
  from assms obtain u2 where rr: "fst rp = Inr u2"
    unfolding unfold by (cases rp; cases "fst rp") auto
  have s': "writes_succeeded c s s' = writes_succeeded c s (snd rp)"
    using assms rr unfolding unfold by (cases rp) (auto split: if_splits)
  have a12: "stores s2 = stores s"
    using 1 2 assessSituation_kept(4) [of c s] planNextAction_kept(4) [of c w s1] by simp
  have a3: "writes_succeeded c s2 s3" using 3 er by (auto intro: executeAction_writes)
  have a4: "stores s4 = stores s3" using 4 observeOutcome_kept(4) [of c ar s3] by simp
  have a5: "writes_succeeded c s4 s5"
    using 5 ur storeEpisode_writes [of c WorldStateUpdated "''observation''" "5 / 10"
        "s4\<lparr> worldState := Some (newState ob) \<rparr>" u]
    by (simp add: updateWorldModel_def writes_succeeded_def)
  have a6: "writes_succeeded c s5 (snd rp)"
    using rr unfolding rp_def
    by (auto simp: replanMission_def split: if_splits intro: storeEpisode_writes writes_refl)
  have "writes_succeeded c s s3" using a12 a3 by (simp add: writes_succeeded_def)
  moreover have "writes_succeeded c s3 s5" using a4 a5 by (simp add: writes_succeeded_def)
  ultimately have "writes_succeeded c s (snd rp)" using a6 by (blast intro: writes_trans)
  with s' show ?thesis by simp
qed

lemma react_loop_writes:
  "react_loop c s = (Inr u, s') \<Longrightarrow> writes_succeeded c s s'"
proof (induction c s arbitrary: u s' rule: react_loop.induct)
  case (1 c s)
  show ?case
  proof (cases "iteration s < maxIterations \<and> \<not> isMissionComplete s")
    case False
    with "1.prems" show ?thesis by (auto simp: react_loop.simps [of c s] intro: writes_refl)
  next
    case True
    obtain x y where body: "react_iteration c (s\<lparr> iteration := iteration s + 1 \<rparr>) = (x, y)"
      by (cases "react_iteration c (s\<lparr> iteration := iteration s + 1 \<rparr>)")
    from True body "1.prems" obtain brk where x: "x = Inr brk"
      by (cases x) (auto simp: react_loop.simps [of c s])
    from react_iteration_writes [OF body [unfolded x]]
    have w1: "writes_succeeded c s y" by (simp add: writes_succeeded_def)
    show ?thesis
    proof (cases brk)
      case True
      with \<open>iteration s < maxIterations \<and> \<not> isMissionComplete s\<close> x body "1.prems" w1
      show ?thesis by (auto simp: react_loop.simps [of c s])
    next
      case False
      with \<open>iteration s < maxIterations \<and> \<not> isMissionComplete s\<close> x body "1.prems"
      have "react_loop c y = (Inr u, s')" by (auto simp: react_loop.simps [of c s])
      from "1.IH" [OF True body [symmetric] x False this] w1 show ?thesis
        by (blast intro: writes_trans)
    qed
  qed
qed

lemma finalizeMission_writes:
  "finalizeMission c s = (Inr r, s') \<Longrightarrow> writes_succeeded c s s'"
  by (auto simp: finalizeMission_def Let_def storeMissionResult_def storeDocument_def
      storePattern_def case_prod_beta split: option.splits sum.splits if_splits
      intro: store_writes writes_trans [OF store_writes store_writes])

lemma try_block_writes:
  "try_block c s = (Inr r, s') \<Longrightarrow> writes_succeeded c s s'"
  by (auto simp: try_block_def split: sum.splits prod.splits
      intro: writes_trans [OF react_loop_writes finalizeMission_writes])

lemma executeMission_writes:
  assumes "executeMission c m s = (Inr r, s')"
  shows "writes_succeeded c s s'"
proof -
  define s0 where "s0 = s\<lparr> mission := Some m, iteration := 0, startTime := now s \<rparr>"
  define st where "st = storeEpisode c (MissionStarted (mission_name m) (mission_type m))
      ''mission_start'' (9 / 10) s0"
  from assms obtain u where u: "fst st = Inr u"
    by (cases "fst st") (auto simp: executeMission_def st_def [symmetric] s0_def [symmetric] case_prod_beta)
  then have "writes_succeeded c s0 (snd st)" unfolding st_def by (rule storeEpisode_writes)
  then have w0: "writes_succeeded c s (snd st)" by (simp add: writes_succeeded_def s0_def)
  from assms u have "try_block c (snd st) = (Inr r, s')"
    by (auto simp: executeMission_def st_def [symmetric] s0_def [symmetric] case_prod_beta
        prod_eq_iff split: sum.splits)
  from w0 try_block_writes [OF this] show ?thesis by (rule writes_trans)
qed

lemma executeMission_raises:
  assumes "executeMission c m s = (Inl e, s')" and "snd (store_reply c (stores s)) = Inr ()"
  shows "\<exists>cause. e = mission_failed m (iteration s') cause"
    and "\<exists>m'. mission s' = Some m' \<and> status m' = FAILED"
proof -
  define s0 where "s0 = s\<lparr> mission := Some m, iteration := 0, startTime := now s \<rparr>"
  define st where "st = storeEpisode c (MissionStarted (mission_name m) (mission_type m))
      ''mission_start'' (9 / 10) s0"
  have u: "fst st = Inr ()" using assms(2) by (simp add: st_def storeEpisode_def store_def s0_def)
  have m1: "mission (snd st) = Some m" by (simp add: st_def s0_def)
  obtain tr s3 where tb: "try_block c (snd st) = (tr, s3)" by (cases "try_block c (snd st)")
  obtain lr s2 where loop: "react_loop c (snd st) = (lr, s2)" by (cases "react_loop c (snd st)")
  have "mission s3 = mission s2"
    using tb loop finalizeMission_mission [of c s2] by (cases lr) (auto simp: try_block_def)
  then have "\<exists>m'. mission s3 = Some m'"
    using react_loop_mission [OF loop] m1 by auto
  moreover have "e = mission_failed m (iteration s3) (projl tr) \<and> s' = set_status FAILED s3"
    using assms(1) u tb
    by (auto simp: executeMission_def st_def [symmetric] s0_def [symmetric] case_prod_beta
        split: sum.splits)
  ultimately show "\<exists>cause. e = mission_failed m (iteration s') cause"
    and "\<exists>m'. mission s' = Some m' \<and> status m' = FAILED"
    by (auto simp: set_status_def)
qed

text \<open>
  C1 (amended). A knowledge-store write that raises is not caught. If the write of the action
  episode raises, \<^verbatim>\<open>executeAction\<close> raises the same error; \<^verbatim>\<open>executeAction\<close> returns a result
  only if every write it issued succeeded, and so does \<^verbatim>\<open>executeMission\<close>. When
  \<^verbatim>\<open>executeMission\<close> raises after the start episode was written, the mission's status is
  FAILED and the error is the mission error that carries the mission identifier and the
  iteration number.
\<close>

theorem store_failure_propagates:
  "(snd (store_reply c (stores s)) = Inl e \<longrightarrow> fst (executeAction c a s) = Inl e)
   \<and> (executeAction c a s = (Inr r, s') \<longrightarrow> writes_succeeded c s s')
   \<and> (executeMission c m s = (Inr result, s'') \<longrightarrow> writes_succeeded c s s'')
   \<and> (executeMission c m s = (Inl err, s'') \<and> snd (store_reply c (stores s)) = Inr ()
        \<longrightarrow> (\<exists>cause. err = mission_failed m (iteration s'') cause)
          \<and> (\<exists>m'. mission s'' = Some m' \<and> status m' = FAILED))"
  using executeAction_first_write [of c s e a] executeAction_writes [of c a s r s']
    executeMission_writes [of c m s result s''] executeMission_raises [of c m s err s'']
  by blast

theorem store_failure_propagates_witness:
  "fst (executeAction (store_fails_at 0) go_on empty_street) = Inl store_unavailable
   \<and> writes_succeeded healthy_services empty_street
        (snd (executeAction healthy_services go_on empty_street))
   \<and> writes_succeeded healthy_services idle_controller
        (snd (executeMission healthy_services windy_mission idle_controller))
   \<and> (\<exists>m'. mission (snd (executeMission (store_fails_at 1) windy_mission idle_controller)) = Some m'
          \<and> status m' = FAILED)"
proof -
  have a: "fst (executeAction (store_fails_at 0) go_on empty_street) = Inl store_unavailable"
    using store_failure_propagates [where c = "store_fails_at 0" and s = empty_street
        and e = store_unavailable and a = go_on, THEN conjunct1]
    by (simp add: store_fails_at_def empty_street_def idle_controller_def)
  have b: "writes_succeeded healthy_services empty_street
        (snd (executeAction healthy_services go_on empty_street))"
    using store_failure_propagates [where c = healthy_services and s = empty_street and a = go_on
        and s' = "snd (executeAction healthy_services go_on empty_street)",
        THEN conjunct2, THEN conjunct1] pair_of_fst [OF go_on_run]
    by blast
  have c: "writes_succeeded healthy_services idle_controller
        (snd (executeMission healthy_services windy_mission idle_controller))"
    using store_failure_propagates [where c = healthy_services and s = idle_controller
        and m = windy_mission
        and s'' = "snd (executeMission healthy_services windy_mission idle_controller)",
        THEN conjunct2, THEN conjunct2, THEN conjunct1] pair_of_fst [OF windy_run]
    by blast
  have "snd (store_reply (store_fails_at 1) (stores idle_controller)) = Inr ()"
    by (simp add: store_fails_at_def idle_controller_def)
  then have d: "\<exists>m'. mission (snd (executeMission (store_fails_at 1) windy_mission idle_controller)) = Some m'
          \<and> status m' = FAILED"
    using store_failure_propagates [where c = "store_fails_at 1" and s = idle_controller
        and m = windy_mission
        and s'' = "snd (executeMission (store_fails_at 1) windy_mission idle_controller)",
        THEN conjunct2, THEN conjunct2, THEN conjunct2] pair_of_fst [OF windy_run_store_down]
    by blast
  from a b c d show ?thesis by blast
qed

theorem store_failure_propagates_counterexample:
  "fst (executeAction healthy_services go_on empty_street) =
     Inr \<lparr> success = True, result_message = ''Continuing on planned path'', extra = NoPayload \<rparr>
   \<and> fst (executeAction (store_fails_at 0) go_on empty_street) = Inl store_unavailable
   \<and> fst (executeMission healthy_services windy_mission idle_controller) =
       Inr \<lparr> missionId = ''m-1'', result_status = ABORTED, objectivesCompleted = 0,
             objectivesTotal = 1, duration = 3 / 25, distanceTraveled = 0, energyConsumed = 0,
             lessons = [''Completed 0/1 objectives'', ''Took 1 iterations'',
                        ''Safety-first approach maintained throughout mission''] \<rparr>
   \<and> fst (executeMission (store_fails_at 1) windy_mission idle_controller) =
       Inl (RoboticsError ''Mission execution failed: GraphRAG: timeout of 30000ms exceeded''
              ''MISSION_ERROR'' 500 (MissionDetails ''m-1'' 1))
   \<and> map_option status
        (mission (snd (executeMission (store_fails_at 1) windy_mission idle_controller)))
       = Some FAILED"
  using go_on_run go_on_store_down windy_run windy_run_store_down windy_run_store_down_status
  by blast

end
